theory Spec2Isabelle
  imports Complex_Main "HOL-Library.Multiset" "HOL-Library.Log_Nat"
begin

section \<open>JavaScript numbers\<close>

text \<open>
  The program computes with JavaScript Numbers, which are IEEE-754 double-precision
  values. A finite double is modelled by the rational it denotes; \<open>NaN\<close> and the
  two infinities are values of their own. Every arithmetic operation computes the
  exact result and rounds it to the nearest double, ties to the even significand,
  with overflow to an infinity and underflow through the subnormal range to zero.
  The sign of zero is not modelled: there is one zero.
\<close>

datatype jsnum = NaN | NInf | Fin rat | PInf

text \<open>Rounding to the nearest integer, ties to the even one.\<close>

definition round_half_even :: "rat \<Rightarrow> int" where
  "round_half_even x =
     (let f = \<lfloor>x\<rfloor>; r = x - of_int f
      in if r < 1 / 2 then f else if 1 / 2 < r then f + 1 else if even f then f else f + 1)"

text \<open>
  The binary exponent of a positive rational \<open>q\<close>: the \<open>e\<close> with
  \<open>2^e \<le> q < 2^(e+1)\<close>, computed from the bit length of the integer part of
  \<open>q\<close>, or of \<open>1/q\<close> when \<open>q < 1\<close>.
\<close>

definition binade :: "rat \<Rightarrow> int" where
  "binade q = (if 1 \<le> q then bitlen \<lfloor>q\<rfloor> - 1 else - bitlen (\<lceil>1 / q\<rceil> - 1))"

text \<open>
  Rounding a positive rational to a double: the significand has 53 bits, so the
  spacing of the doubles around \<open>q\<close> is \<open>2^(e-52)\<close>, where \<open>e\<close> is the
  exponent of \<open>q\<close> but at least \<open>-1022\<close> (below that the doubles are the
  subnormal ones, equally spaced). A result of \<open>2^1024\<close> or more is infinity.
\<close>

definition round_pos :: "rat \<Rightarrow> jsnum" where
  "round_pos q =
     (let e = max (binade q) (- 1022);
          quantum = 2 powi (e - 52);
          r = of_int (round_half_even (q / quantum)) * quantum
      in if 2 powi 1024 \<le> r then PInf else Fin r)"

fun js_neg :: "jsnum \<Rightarrow> jsnum" where
  "js_neg NaN = NaN"
| "js_neg NInf = PInf"
| "js_neg PInf = NInf"
| "js_neg (Fin a) = Fin (- a)"

definition round_double :: "rat \<Rightarrow> jsnum" where
  "round_double q =
     (if q = 0 then Fin 0 else if 0 < q then round_pos q else js_neg (round_pos (- q)))"

fun js_add :: "jsnum \<Rightarrow> jsnum \<Rightarrow> jsnum" where
  "js_add NaN _ = NaN"
| "js_add _ NaN = NaN"
| "js_add (Fin a) (Fin b) = round_double (a + b)"
| "js_add PInf NInf = NaN"
| "js_add NInf PInf = NaN"
| "js_add PInf _ = PInf"
| "js_add NInf _ = NInf"
| "js_add (Fin a) b = b"

text \<open>\<open>x - y\<close> is \<open>x + (-y)\<close>, as in the language definition.\<close>

definition js_sub :: "jsnum \<Rightarrow> jsnum \<Rightarrow> jsnum" where
  "js_sub a b = js_add a (js_neg b)"

definition signed_inf :: "bool \<Rightarrow> jsnum" where
  "signed_inf negative = (if negative then NInf else PInf)"

fun js_mul :: "jsnum \<Rightarrow> jsnum \<Rightarrow> jsnum" where
  "js_mul NaN _ = NaN"
| "js_mul _ NaN = NaN"
| "js_mul (Fin a) (Fin b) = round_double (a * b)"
| "js_mul (Fin a) PInf = (if a = 0 then NaN else signed_inf (a < 0))"
| "js_mul (Fin a) NInf = (if a = 0 then NaN else signed_inf (0 < a))"
| "js_mul PInf (Fin b) = (if b = 0 then NaN else signed_inf (b < 0))"
| "js_mul NInf (Fin b) = (if b = 0 then NaN else signed_inf (0 < b))"
| "js_mul PInf PInf = PInf"
| "js_mul NInf NInf = PInf"
| "js_mul PInf NInf = NInf"
| "js_mul NInf PInf = NInf"

fun js_div :: "jsnum \<Rightarrow> jsnum \<Rightarrow> jsnum" where
  "js_div NaN _ = NaN"
| "js_div _ NaN = NaN"
| "js_div (Fin a) (Fin b) =
     (if b = 0 then (if a = 0 then NaN else signed_inf (a < 0)) else round_double (a / b))"
| "js_div (Fin a) _ = Fin 0"
| "js_div PInf (Fin b) = signed_inf (b < 0)"
| "js_div NInf (Fin b) = signed_inf (0 \<le> b)"
| "js_div _ _ = NaN"

fun js_floor :: "jsnum \<Rightarrow> jsnum" where
  "js_floor (Fin a) = Fin (of_int \<lfloor>a\<rfloor>)"
| "js_floor x = x"

fun js_ceil :: "jsnum \<Rightarrow> jsnum" where
  "js_ceil (Fin a) = Fin (of_int \<lceil>a\<rceil>)"
| "js_ceil x = x"

text \<open>Relational operators: any comparison with \<open>NaN\<close> is false.\<close>

fun js_lt :: "jsnum \<Rightarrow> jsnum \<Rightarrow> bool" where
  "js_lt NaN _ = False"
| "js_lt _ NaN = False"
| "js_lt (Fin a) (Fin b) = (a < b)"
| "js_lt PInf _ = False"
| "js_lt _ NInf = False"
| "js_lt _ _ = True"

definition js_gt :: "jsnum \<Rightarrow> jsnum \<Rightarrow> bool" where
  "js_gt a b = js_lt b a"

fun js_le :: "jsnum \<Rightarrow> jsnum \<Rightarrow> bool" where
  "js_le NaN _ = False"
| "js_le _ NaN = False"
| "js_le a b = (\<not> js_lt b a)"

definition js_ge :: "jsnum \<Rightarrow> jsnum \<Rightarrow> bool" where
  "js_ge a b = js_le b a"

text \<open>Truthiness of a number: \<open>0\<close> and \<open>NaN\<close> are falsy.\<close>

fun to_boolean :: "jsnum \<Rightarrow> bool" where
  "to_boolean NaN = False"
| "to_boolean (Fin a) = (a \<noteq> 0)"
| "to_boolean _ = True"

definition isNaN :: "jsnum \<Rightarrow> bool" where
  "isNaN x = (x = NaN)"

section \<open>Strings and numbers\<close>

text \<open>
  Strings are lists of characters. \<open>Number(s)\<close> applied to a string follows the
  language's string-to-number grammar: surrounding white space is trimmed, the empty
  string is \<open>0\<close>, then an optionally signed decimal literal (with optional fraction
  and exponent), \<open>Infinity\<close>, or an unsigned \<open>0x\<close>/\<open>0o\<close>/\<open>0b\<close> integer; anything
  else is \<open>NaN\<close>. The mathematical value of the literal is rounded to a double.
  Only the ASCII white-space characters are trimmed here.
\<close>

definition is_ws :: "char \<Rightarrow> bool" where
  "is_ws c = (of_char c \<in> {9, 10, 11, 12, 13, 32 :: nat})"

definition trim :: "string \<Rightarrow> string" where
  "trim s = rev (dropWhile is_ws (rev (dropWhile is_ws s)))"

definition is_digit :: "char \<Rightarrow> bool" where
  "is_digit c = (48 \<le> (of_char c :: nat) \<and> (of_char c :: nat) \<le> 57)"

definition digit_val :: "char \<Rightarrow> nat" where
  "digit_val c = of_char c - 48"

definition digits_val :: "string \<Rightarrow> nat" where
  "digits_val ds = foldl (\<lambda>n c. 10 * n + digit_val c) 0 ds"

definition hex_val :: "char \<Rightarrow> nat option" where
  "hex_val c =
     (let n = (of_char c :: nat) in
      if 48 \<le> n \<and> n \<le> 57 then Some (n - 48)
      else if 97 \<le> n \<and> n \<le> 102 then Some (n - 87)
      else if 65 \<le> n \<and> n \<le> 70 then Some (n - 55)
      else None)"

fun radix_val :: "nat \<Rightarrow> nat \<Rightarrow> string \<Rightarrow> nat option" where
  "radix_val b acc [] = Some acc"
| "radix_val b acc (c # cs) =
     (case hex_val c of
        None \<Rightarrow> None
      | Some d \<Rightarrow> if d < b then radix_val b (b * acc + d) cs else None)"

definition non_decimal_literal :: "string \<Rightarrow> nat option" where
  "non_decimal_literal s =
     (case s of
        z # p # d # ds \<Rightarrow>
          if z \<noteq> CHR ''0'' then None
          else if p = CHR ''x'' \<or> p = CHR ''X'' then radix_val 16 0 (d # ds)
          else if p = CHR ''o'' \<or> p = CHR ''O'' then radix_val 8 0 (d # ds)
          else if p = CHR ''b'' \<or> p = CHR ''B'' then radix_val 2 0 (d # ds)
          else None
      | _ \<Rightarrow> None)"

definition all_digits :: "string \<Rightarrow> nat option" where
  "all_digits ds = (if ds \<noteq> [] \<and> list_all is_digit ds then Some (digits_val ds) else None)"

definition exponent_part :: "string \<Rightarrow> int option" where
  "exponent_part r =
     (case r of
        [] \<Rightarrow> Some 0
      | c # r' \<Rightarrow>
          if c = CHR ''e'' \<or> c = CHR ''E'' then
            (case r' of
               [] \<Rightarrow> None
             | sg # ds \<Rightarrow>
                 if sg = CHR ''+'' then map_option int (all_digits ds)
                 else if sg = CHR ''-'' then map_option (\<lambda>n. - int n) (all_digits ds)
                 else map_option int (all_digits r'))
          else None)"

definition scale10 :: "rat \<Rightarrow> int \<Rightarrow> rat" where
  "scale10 m e = (if 0 \<le> e then m * 10 ^ nat e else m / 10 ^ nat (- e))"

definition unsigned_decimal :: "string \<Rightarrow> jsnum" where
  "unsigned_decimal s =
     (if s = ''Infinity'' then PInf
      else
        let ip = takeWhile is_digit s;
            r1 = dropWhile is_digit s;
            has_dot = (r1 \<noteq> [] \<and> hd r1 = CHR ''.'');
            fp = (if has_dot then takeWhile is_digit (tl r1) else []);
            r2 = (if has_dot then dropWhile is_digit (tl r1) else r1)
        in if ip = [] \<and> fp = [] then NaN
           else (case exponent_part r2 of
                   None \<Rightarrow> NaN
                 | Some e \<Rightarrow>
                     round_double (scale10 (of_nat (digits_val ip)
                                            + of_nat (digits_val fp) / 10 ^ length fp) e)))"

definition Number :: "string \<Rightarrow> jsnum" where
  "Number s =
     (let t = trim s in
      if t = [] then Fin 0
      else (case non_decimal_literal t of
              Some n \<Rightarrow> round_double (of_nat n)
            | None \<Rightarrow>
                if hd t = CHR ''+'' then unsigned_decimal (tl t)
                else if hd t = CHR ''-'' then js_neg (unsigned_decimal (tl t))
                else unsigned_decimal t))"

text \<open>
  \<open>x.toFixed(f)\<close>: non-finite values print by name; a magnitude of at least
  \<open>10^21\<close> is handed to the general number-to-string conversion (a parameter
  here); otherwise the nearest integer to \<open>x * 10^f\<close> (the larger one on a tie) is
  printed with the decimal point \<open>f\<close> places from the right, padded with zeros.
\<close>

definition digit_char :: "nat \<Rightarrow> char" where
  "digit_char d = ''0123456789'' ! d"

fun nat_digits :: "nat \<Rightarrow> string" where
  "nat_digits n = (if n < 10 then [digit_char n] else nat_digits (n div 10) @ [digit_char (n mod 10)])"

definition toFixed :: "(rat \<Rightarrow> string) \<Rightarrow> nat \<Rightarrow> jsnum \<Rightarrow> string" where
  "toFixed numToString f x =
     (case x of
        NaN \<Rightarrow> ''NaN''
      | PInf \<Rightarrow> ''Infinity''
      | NInf \<Rightarrow> ''-Infinity''
      | Fin a \<Rightarrow>
          let s = (if a < 0 then ''-'' else []);
              a' = (if a < 0 then - a else a)
          in if 10 ^ 21 \<le> a' then s @ numToString a'
             else
               let n = nat \<lfloor>a' * 10 ^ f + 1 / 2\<rfloor>;
                   m = nat_digits n;
                   m' = (if f \<noteq> 0 then
                           let m2 = (if length m \<le> f
                                     then replicate (f + 1 - length m) (CHR ''0'') @ m else m);
                               k = length m2
                           in take (k - f) m2 @ ''.'' @ drop (k - f) m2
                         else m)
               in s @ m')"

section \<open>Time values\<close>

text \<open>
  The time value of a valid \<open>Date\<close> is an integral number of milliseconds since
  the epoch, of magnitude at most \<open>8.64 * 10^15\<close>; every such number is a
  double. \<open>ms\<close> reads the number; \<open>TimeClip\<close> is the range check that the
  \<open>Date\<close> constructor applies (outside of the range the date is invalid);
  \<open>time_of\<close> names the time value of an integer within the range (outside of it,
  the epoch).
\<close>

typedef time_value = "{t :: int. \<bar>t\<bar> \<le> 8640000000000000}"
  by (rule exI [of _ 0]) simp

definition ms :: "time_value \<Rightarrow> int" where
  "ms t = Rep_time_value t"

definition time_of :: "int \<Rightarrow> time_value" where
  "time_of t = Abs_time_value (if \<bar>t\<bar> \<le> 8640000000000000 then t else 0)"

definition TimeClip :: "int \<Rightarrow> time_value option" where
  "TimeClip t = (if \<bar>t\<bar> \<le> 8640000000000000 then Some (time_of t) else None)"

section \<open>Data model\<close>

text \<open>Errors thrown by the runtime or by the program, as values.\<close>

datatype js_error = Error string | TypeError string | SyntaxError string | RangeError string

text \<open>
  What \<open>getRate\<close> resolves to, and the \<open>RateRecord\<close> kept in the state: the fetched
  record with the currency pair added (\<open>{ ...r, from, to }\<close>).
\<close>

record fetched =
  "value" :: jsnum
  provider :: string
  timestamp :: jsnum
  date :: "string option"

record RateRecord = fetched +
  "from" :: string
  "to" :: string

text \<open>
  The persisted state (\<open>DEFAULTS\<close> in \<open>App.jsx\<close>). \<open>balance\<close> is optional because
  the code reads it with \<open>?.\<close>; \<open>lastRate\<close> is \<open>null\<close> or a record.
\<close>

record State =
  balance :: "string option"
  srcCurrency :: string
  dstCurrency :: string
  paydate :: string
  useConversion :: bool
  provider :: string
  apiKey :: string
  lastRate :: "RateRecord option"
  cachedCurrencies :: "(string \<times> string) list option"
  lastPerDay :: "jsnum option"

text \<open>The object built by the derived-calculation memo; \<open>null\<close> is \<open>None\<close>.\<close>

record Derived =
  perDay :: "jsnum option"
  daysLeft :: jsnum
  amountDisplay :: "string option"
  convertedDisplay :: "string option"
  rateLine :: string
  error :: string

text \<open>
  What the calculation reads from the runtime besides the state:
  \<^item> \<open>now_date\<close>: the time value of \<open>new Date()\<close>;
  \<^item> \<open>date_now\<close>: the value of the later call \<open>Date.now()\<close>;
  \<^item> \<open>parse_date\<close>: the time value of \<open>new Date(s)\<close> for a string \<open>s\<close>,
    \<open>None\<close> for an invalid date (whose numeric value is \<open>NaN\<close>); it depends on
    the engine and on the local time zone;
  \<^item> \<open>intl_format\<close>: \<open>Intl.NumberFormat(locale, {style: 'currency', currency: code,
    ...}).format(value)\<close>, or the error it throws (an invalid currency code);
  \<^item> \<open>num_to_string\<close>: the general number-to-string conversion, which \<open>toFixed\<close>
    uses for magnitudes of at least \<open>10^21\<close>.
\<close>

record env =
  now_date :: time_value
  date_now :: time_value
  parse_date :: "string \<Rightarrow> time_value option"
  intl_format :: "jsnum \<Rightarrow> string \<Rightarrow> js_error + string"
  num_to_string :: "rat \<Rightarrow> string"

section \<open>Money formatting (\<open>lib/fx.js\<close>)\<close>

text \<open>
  \<open>formatMoney(value, code)\<close>: \<open>"0.00 {code}"\<close> for \<open>NaN\<close>, otherwise the
  locale-aware format, and when that throws, \<open>value.toFixed(2)\<close> followed by the
  code. On that fallback the function also writes a warning to the console:
  \<open>formatMoney_console\<close> is what a call writes, each entry the message and the
  error that \<open>console.warn\<close> is given.
\<close>

definition formatMoney :: "env \<Rightarrow> jsnum \<Rightarrow> string \<Rightarrow> string" where
  "formatMoney e v code =
     (if isNaN v then ''0.00 '' @ code
      else (case intl_format e v code of
              Inr s \<Rightarrow> s
            | Inl err \<Rightarrow> toFixed (num_to_string e) 2 v @ '' '' @ code))"


section \<open>The derived calculation (\<open>App.jsx\<close>, lines 180--215)\<close>

text \<open>
  The callback of the \<open>useMemo\<close> hook that builds the derived record, called
  \<open>compute\<close> here, with its sub-expressions named.
\<close>

definition strip_commas :: "string \<Rightarrow> string" where
  "strip_commas s = filter (\<lambda>c. c \<noteq> CHR '','') s"

text \<open>\<open>Number(state.balance?.replace(/,/g, '') || 0)\<close>\<close>

definition parsed_balance :: "State \<Rightarrow> jsnum" where
  "parsed_balance state =
     (case balance state of
        None \<Rightarrow> Fin 0
      | Some b \<Rightarrow> (let t = strip_commas b in if t = [] then Fin 0 else Number t))"

text \<open>The numeric value of a \<open>Date\<close>: its time value, \<open>NaN\<close> for an invalid date.\<close>

definition date_value :: "time_value option \<Rightarrow> jsnum" where
  "date_value d = (case d of None \<Rightarrow> NaN | Some t \<Rightarrow> Fin (of_int (ms t)))"

definition day_ms :: jsnum where
  "day_ms = Fin (24 * 60 * 60 * 1000)"

text \<open>\<open>Math.ceil((new Date(paydate + 'T23:59:59') - new Date()) / day)\<close>\<close>

definition days_until :: "env \<Rightarrow> State \<Rightarrow> jsnum" where
  "days_until e state =
     (let now = date_value (Some (now_date e));
          pay = date_value (parse_date e (paydate state @ ''T23:59:59''));
          diff = js_sub pay now
      in js_ceil (js_div diff day_ms))"

text \<open>The condition of the conversion branch (lines 200--201).\<close>

definition usable_rate :: "State \<Rightarrow> RateRecord option" where
  "usable_rate state =
     (case lastRate state of
        None \<Rightarrow> None
      | Some r \<Rightarrow>
          if useConversion state \<and> srcCurrency state \<noteq> dstCurrency state
             \<and> from r = srcCurrency state \<and> to r = dstCurrency state
          then Some r else None)"

text \<open>\<open>Date.now() - lastRate.timestamp\<close> and the staleness test of lines 207--208.\<close>

definition rate_age :: "env \<Rightarrow> RateRecord \<Rightarrow> jsnum" where
  "rate_age e r = js_sub (date_value (Some (date_now e))) (timestamp r)"

definition is_stale :: "env \<Rightarrow> RateRecord \<Rightarrow> bool" where
  "is_stale e r = js_gt (rate_age e r) (Fin (24 * 60 * 60 * 1000))"

definition rate_line :: "env \<Rightarrow> State \<Rightarrow> RateRecord \<Rightarrow> string" where
  "rate_line e state r =
     ''1 '' @ srcCurrency state @ '' = '' @ toFixed (num_to_string e) 4 (value r)
     @ '' '' @ dstCurrency state @ (if is_stale e r then '' (cached)'' else [])"

definition out0 :: Derived where
  "out0 = \<lparr>perDay = None, daysLeft = Fin 0, amountDisplay = None,
           convertedDisplay = None, rateLine = [], error = []\<rparr>"

definition compute :: "env \<Rightarrow> State \<Rightarrow> Derived" where
  "compute e state =
     (let out = out0;
          bal = parsed_balance state
      in if \<not> to_boolean bal \<or> paydate state = [] then out
         else
           let days = days_until e state
           in if js_le days (Fin 0) then out\<lparr>error := ''Choose a future payday.''\<rparr>
              else
                let out1 = out\<lparr>daysLeft := days,
                               amountDisplay := Some (formatMoney e bal (srcCurrency state))\<rparr>;
                    originalPerDay = js_floor (js_div bal days)
                in (case usable_rate state of
                      Some r \<Rightarrow>
                        let convertedAmount = js_mul bal (value r);
                            convertedPerDay = js_floor (js_div convertedAmount days)
                        in out1\<lparr>convertedDisplay :=
                                  Some (formatMoney e convertedAmount (dstCurrency state)),
                                perDay := Some convertedPerDay,
                                rateLine := rate_line e state r\<rparr>
                    | None \<Rightarrow> out1\<lparr>perDay := Some originalPerDay\<rparr>))"


section \<open>The rate coordinator (\<open>App.jsx\<close>, lines 269--285)\<close>

text \<open>
  \<open>maybeFetchRate\<close> is asynchronous: it reads the state of the render it was
  created in, may call \<open>getRate\<close> (the rate-fetch collaborator, a parameter here:
  \<open>Inr\<close> the record it resolves to, \<open>Inl\<close> the error it rejects with), and on
  success calls \<open>setState\<close> with an updater that is applied to whatever the state
  is by then. A run is described by the calls it made to \<open>getRate\<close>, the updater
  it handed to \<open>setState\<close> (if any) and what it logged with \<open>console.warn\<close>.
  The result is \<open>Inl\<close> when the promise returned by \<open>maybeFetchRate\<close> rejects.
\<close>

type_synonym rate_fetcher = "string \<Rightarrow> string \<Rightarrow> string \<Rightarrow> string \<Rightarrow> js_error + fetched"

record fetch_run =
  calls :: "(string \<times> string \<times> string \<times> string) list"
  update :: "(State \<Rightarrow> State) option"
  warnings :: "js_error list"

definition try_catch :: "('e + 'a) \<Rightarrow> ('e \<Rightarrow> 'e + 'a) \<Rightarrow> 'e + 'a" where
  "try_catch body handler = (case body of Inl e \<Rightarrow> handler e | Inr v \<Rightarrow> Inr v)"

definition no_op :: fetch_run where
  "no_op = \<lparr>calls = [], update = None, warnings = []\<rparr>"

text \<open>\<open>s => ({ ...s, lastRate: { ...r, from: s.srcCurrency, to: s.dstCurrency } })\<close>\<close>

definition store_rate :: "fetched \<Rightarrow> State \<Rightarrow> State" where
  "store_rate r s =
     s\<lparr>lastRate := Some \<lparr>value = value r, provider = fetched.provider r,
                          timestamp = timestamp r, date = date r,
                          from = srcCurrency s, to = dstCurrency s\<rparr>\<rparr>"

text \<open>The cache test of lines 273--275.\<close>

definition fresh_rate :: "env \<Rightarrow> State \<Rightarrow> bool" where
  "fresh_rate e state =
     (case lastRate state of
        None \<Rightarrow> False
      | Some r \<Rightarrow>
          from r = srcCurrency state \<and> to r = dstCurrency state
          \<and> js_lt (rate_age e r) (Fin (60 * 60 * 1000)))"

definition maybeFetchRate :: "env \<Rightarrow> rate_fetcher \<Rightarrow> bool \<Rightarrow> State \<Rightarrow> js_error + fetch_run" where
  "maybeFetchRate e getRate isOnline state =
     (if \<not> isOnline then Inr no_op
      else if \<not> (useConversion state \<and> srcCurrency state \<noteq> dstCurrency state) then Inr no_op
      else if fresh_rate e state then Inr no_op
      else
        let call = (srcCurrency state, dstCurrency state, State.provider state, apiKey state)
        in try_catch
             (case getRate (srcCurrency state) (dstCurrency state)
                     (State.provider state) (apiKey state) of
                Inl err \<Rightarrow> Inl err
              | Inr r \<Rightarrow> Inr \<lparr>calls = [call], update = Some (store_rate r), warnings = []\<rparr>)
             (\<lambda>err. Inr \<lparr>calls = [call], update = None, warnings = [err]\<rparr>))"

text \<open>The state after a run, given the state the updater finds.\<close>

definition state_after :: "fetch_run \<Rightarrow> State \<Rightarrow> State" where
  "state_after run s = (case update run of None \<Rightarrow> s | Some f \<Rightarrow> f s)"

section \<open>The currency catalogue (\<open>lib/fx.js\<close>, \<open>listCurrencies\<close>)\<close>

text \<open>
  \<open>Array.prototype.sort\<close> with a comparison function is stable; it is modelled by
  a stable insertion sort, which yields the order every stable sort yields when the
  comparison is consistent.
\<close>

fun insert_by :: "('a \<Rightarrow> 'a \<Rightarrow> int) \<Rightarrow> 'a \<Rightarrow> 'a list \<Rightarrow> 'a list" where
  "insert_by cmp x [] = [x]"
| "insert_by cmp x (y # ys) = (if cmp x y \<le> 0 then x # y # ys else y # insert_by cmp x ys)"

definition array_sort :: "('a \<Rightarrow> 'a \<Rightarrow> int) \<Rightarrow> 'a list \<Rightarrow> 'a list" where
  "array_sort cmp xs = foldr (insert_by cmp) xs []"

text \<open>
  The outcome of \<open>fetch\<close> followed by \<open>r.json()\<close>: the request fails, or a
  response arrives with its \<open>ok\<close> flag and a body that parses (to the catalogue
  object, given by its members in property order) or does not.
\<close>

datatype http_result =
  NetworkFailure js_error
| Response bool "js_error + (string \<times> string) list"

text \<open>
  \<open>localeCompare\<close> is the engine's locale-sensitive string comparison, a parameter
  here. The comparison function \<open>([a], [b]) => a.localeCompare(b)\<close> takes the first
  component of each entry.
\<close>

definition by_first :: "(string \<Rightarrow> string \<Rightarrow> int) \<Rightarrow> string \<times> string \<Rightarrow> string \<times> string \<Rightarrow> int" where
  "by_first localeCompare x y = localeCompare (fst x) (fst y)"

definition listCurrencies ::
  "(string \<Rightarrow> string \<Rightarrow> int) \<Rightarrow> http_result \<Rightarrow> js_error + (string \<times> string) list" where
  "listCurrencies localeCompare res =
     try_catch
       (case res of
          NetworkFailure err \<Rightarrow> Inl err
        | Response ok body \<Rightarrow>
            if \<not> ok then Inl (Error ''Failed to fetch currencies'')
            else (case body of
                    Inl err \<Rightarrow> Inl err
                  | Inr json \<Rightarrow> Inr (array_sort (by_first localeCompare) json)))
       (\<lambda>err. Inl err)"

section \<open>Reference instances of the runtime parameters\<close>

text \<open>
  A date parser for the one shape the calculation builds,
  \<open>YYYY-MM-DDTHH:mm:ss\<close> read as local time at a fixed offset from UTC (in
  milliseconds), with the day numbering of the language definition. Any other
  string, and any field out of range, is an invalid date. \<open>iso_local\<close> computes
  the number of milliseconds, \<open>parse_iso\<close> the date.
\<close>

definition DayFromYear :: "int \<Rightarrow> int" where
  "DayFromYear y = 365 * (y - 1970) + (y - 1969) div 4 - (y - 1901) div 100 + (y - 1601) div 400"

definition InLeapYear :: "int \<Rightarrow> bool" where
  "InLeapYear y = ((y mod 4 = 0 \<and> y mod 100 \<noteq> 0) \<or> y mod 400 = 0)"

definition DaysInMonth :: "int \<Rightarrow> nat \<Rightarrow> nat" where
  "DaysInMonth y m =
     (if m = 2 then (if InLeapYear y then 29 else 28)
      else if m = 4 \<or> m = 6 \<or> m = 9 \<or> m = 11 then 30 else 31)"

definition MonthStart :: "int \<Rightarrow> nat \<Rightarrow> int" where
  "MonthStart y m =
     int ([0, 31, 59, 90, 120, 151, 181, 212, 243, 273, 304, 334] ! (m - 1))
     + (if InLeapYear y \<and> 2 < m then 1 else 0)"

definition MakeDay :: "int \<Rightarrow> nat \<Rightarrow> nat \<Rightarrow> int" where
  "MakeDay y m d = DayFromYear y + MonthStart y m + (int d - 1)"

definition MakeTime :: "nat \<Rightarrow> nat \<Rightarrow> nat \<Rightarrow> int" where
  "MakeTime h mi s = int h * 3600000 + int mi * 60000 + int s * 1000"

definition iso_local :: "int \<Rightarrow> string \<Rightarrow> int option" where
  "iso_local offset str =
     (case str of
        [y1, y2, y3, y4, p1, m1, m2, p2, d1, d2, t, h1, h2, c1, i1, i2, c2, s1, s2] \<Rightarrow>
          if p1 = CHR ''-'' \<and> p2 = CHR ''-'' \<and> t = CHR ''T'' \<and> c1 = CHR '':'' \<and> c2 = CHR '':''
             \<and> list_all is_digit [y1, y2, y3, y4, m1, m2, d1, d2, h1, h2, i1, i2, s1, s2]
          then
            let y = int (digits_val [y1, y2, y3, y4]);
                m = digits_val [m1, m2];
                d = digits_val [d1, d2];
                h = digits_val [h1, h2];
                mi = digits_val [i1, i2];
                s = digits_val [s1, s2]
            in if 1 \<le> m \<and> m \<le> 12 \<and> 1 \<le> d \<and> d \<le> DaysInMonth y m
                  \<and> (h < 24 \<or> (h = 24 \<and> mi = 0 \<and> s = 0)) \<and> mi < 60 \<and> s < 60
               then Some (MakeDay y m d * 86400000 + MakeTime h mi s - offset)
               else None
          else None
      | _ \<Rightarrow> None)"

definition parse_iso :: "int \<Rightarrow> string \<Rightarrow> time_value option" where
  "parse_iso offset str = (case iso_local offset str of None \<Rightarrow> None | Some t \<Rightarrow> TimeClip t)"

text \<open>
  A comparison by character codes; on the upper-case ASCII currency codes the
  locale-sensitive comparison orders strings the same way.
\<close>

fun code_compare :: "string \<Rightarrow> string \<Rightarrow> int" where
  "code_compare [] [] = 0"
| "code_compare [] (b # bs) = - 1"
| "code_compare (a # as) [] = 1"
| "code_compare (a # as) (b # bs) =
     (if (of_char a :: nat) < of_char b then - 1
      else if (of_char b :: nat) < of_char a then 1
      else code_compare as bs)"

text \<open>
  An environment for the worked scenarios: the given clock, local time equal to
  UTC, and a formatter that always fails (so that \<open>formatMoney\<close> takes its
  fixed-point fallback). \<open>quiet_env\<close> is the same with a formatter that never
  fails.
\<close>

definition sample_env :: "int \<Rightarrow> env" where
  "sample_env t =
     \<lparr>now_date = time_of t, date_now = time_of t, parse_date = parse_iso 0,
      intl_format = (\<lambda>v code. Inl (RangeError ''Invalid currency code'')),
      num_to_string = (\<lambda>q. ''1e+21'')\<rparr>"


definition sample_state :: State where
  "sample_state =
     \<lparr>balance = Some ''3000'', srcCurrency = ''EUR'', dstCurrency = ''EUR'',
      paydate = ''2025-01-20'', useConversion = False, provider = ''frankfurter'',
      apiKey = [], lastRate = None, cachedCurrencies = None, lastPerDay = None\<rparr>"

text \<open>
  The conversion scenario: balance \<open>"2,200"\<close>, EUR to USD, a rate of 1.1 (the
  double nearest to it) for that pair stamped at \<open>2025-01-11T10:00:00\<close>.
\<close>

definition conversion_state :: State where
  "conversion_state =
     sample_state\<lparr>balance := Some ''2,200'', dstCurrency := ''USD'', useConversion := True,
       lastRate := Some \<lparr>value = Number ''1.1'', provider = ''frankfurter'',
                          timestamp = Fin 1736589600000, date = Some ''2025-01-11'',
                          from = ''EUR'', to = ''USD''\<rparr>\<rparr>"

text \<open>
  The same state after the user has switched the destination currency to GBP: the
  stored rate is still the one for EUR to USD.
\<close>

definition mismatch_state :: State where
  "mismatch_state = conversion_state\<lparr>dstCurrency := ''GBP''\<rparr>"

text \<open>
  A payday that passes the input handler's pattern \<open>^\d{4}-\d{2}-\d{2}$\<close> but is
  not a date.
\<close>

definition bad_date_state :: State where
  "bad_date_state = sample_state\<lparr>paydate := ''2025-13-45''\<rparr>"

text \<open>
  Two rate fetchers for the worked runs: one that resolves, one that rejects.
\<close>

definition sample_fetcher :: rate_fetcher where
  "sample_fetcher f t p k =
     Inr \<lparr>value = Fin (5 / 4), provider = p, timestamp = Fin 1736596800000,
          date = Some ''2025-01-11''\<rparr>"

definition failing_fetcher :: rate_fetcher where
  "failing_fetcher f t p k = Inl (Error ''HTTP 503: Service Unavailable'')"

text \<open>
  The two orders in question for the catalogue: by the first component of each
  entry (the code), which is what the comparison function of \<open>listCurrencies\<close>
  looks at, and by the second (the name), which is what the specification says.
\<close>

definition sorted_by_code :: "(string \<Rightarrow> string \<Rightarrow> int) \<Rightarrow> (string \<times> string) list \<Rightarrow> bool" where
  "sorted_by_code localeCompare xs = sorted_wrt (\<lambda>x y. localeCompare (fst x) (fst y) \<le> 0) xs"

definition sorted_by_name :: "(string \<Rightarrow> string \<Rightarrow> int) \<Rightarrow> (string \<times> string) list \<Rightarrow> bool" where
  "sorted_by_name localeCompare xs = sorted_wrt (\<lambda>x y. localeCompare (snd x) (snd y) \<le> 0) xs"

definition sample_catalogue :: "(string \<times> string) list" where
  "sample_catalogue =
     [(''CHF'', ''Swiss Franc''), (''CNY'', ''Chinese Renminbi Yuan''),
      (''CAD'', ''Canadian Dollar'')]"

section \<open>Rounding to a double\<close>

text \<open>
  The exponent brackets its argument, the rounding of a number in the normal range
  is within a relative error of \<open>2^-53\<close>, on the same side of zero, and integers
  up to \<open>2^53\<close> in magnitude are rounded to themselves.
\<close>

lemma binade_bounds:
  assumes "0 < q"
  shows "2 powi binade q \<le> q \<and> q < 2 powi (binade q + 1)"
proof (cases "1 \<le> q")
  case True
  define n where "n = \<lfloor>q\<rfloor>"
  have n1: "1 \<le> n" using True by (simp add: n_def)
  then have npos: "0 < n" by simp
  have b1: "1 \<le> bitlen n" using npos bitlen_eq_zero_iff [of n] bitlen_nonneg [of n] by linarith
  from bitlen_bounds [OF npos]
  have lo: "2 ^ nat (bitlen n - 1) \<le> n" and hi: "n < 2 ^ nat (bitlen n)" by simp_all
  have e: "binade q = bitlen n - 1" using True by (simp add: binade_def n_def)
  have "(2::rat) powi (bitlen n - 1) = 2 ^ nat (bitlen n - 1)"
    using b1 by (simp add: power_int_nonneg_exp)
  also have "\<dots> = of_int (2 ^ nat (bitlen n - 1))" by simp
  also have "\<dots> \<le> of_int n" using lo by (simp only: of_int_le_iff)
  also have "\<dots> \<le> q" by (simp add: n_def)
  finally have A: "2 powi binade q \<le> q" by (simp add: e)
  have "n + 1 \<le> 2 ^ nat (bitlen n)" using hi by simp
  then have "(of_int (n + 1) :: rat) \<le> of_int (2 ^ nat (bitlen n))" by (simp only: of_int_le_iff)
  moreover have "q < of_int (n + 1)" using floor_correct [of q] by (simp add: n_def)
  ultimately have "q < of_int (2 ^ nat (bitlen n))" by linarith
  also have "\<dots> = 2 powi (bitlen n)" using b1 by (simp add: power_int_nonneg_exp)
  finally have B: "q < 2 powi (binade q + 1)" by (simp add: e)
  from A B show ?thesis ..
next
  case False
  then have q1: "q < 1" by simp
  define c where "c = \<lceil>1 / q\<rceil>"
  define k where "k = bitlen (c - 1)"
  have inv: "1 < 1 / q" using assms q1 by (simp add: field_simps)
  have c2: "2 \<le> c" using inv by (simp add: c_def less_ceiling_iff)
  then have cpos: "0 < c - 1" by simp
  have k1: "1 \<le> k" unfolding k_def
    using cpos bitlen_eq_zero_iff [of "c - 1"] bitlen_nonneg [of "c - 1"] by linarith
  from bitlen_bounds [OF cpos]
  have lo: "2 ^ nat (k - 1) \<le> c - 1" and hi: "c - 1 < 2 ^ nat k" by (simp_all add: k_def)
  have e: "binade q = - k" using False by (simp add: binade_def c_def k_def)
  have p1: "(2::rat) powi k = 2 ^ nat k" using k1 by (simp add: power_int_nonneg_exp)
  have p2: "(2::rat) powi (k - 1) = 2 ^ nat (k - 1)" using k1 by (simp add: power_int_nonneg_exp)
  have "c \<le> 2 ^ nat k" using hi by simp
  then have "(of_int c :: rat) \<le> of_int (2 ^ nat k)" by (simp only: of_int_le_iff)
  then have cle: "(of_int c :: rat) \<le> 2 ^ nat k" by simp
  have "1 / q \<le> of_int c" by (simp add: c_def)
  with cle have "1 / q \<le> 2 ^ nat k" by linarith
  then have "1 / q \<le> 2 powi k" by (simp only: p1)
  then have "1 \<le> 2 powi k * q" using assms by (simp add: field_simps)
  then have A: "2 powi (- k) \<le> q"
    by (simp add: power_int_minus field_simps)
  have "(of_int (2 ^ nat (k - 1)) :: rat) \<le> of_int (c - 1)" using lo by (simp only: of_int_le_iff)
  then have cge: "(2 ^ nat (k - 1) :: rat) \<le> of_int (c - 1)" by simp
  have "of_int (c - 1) < 1 / q" unfolding c_def using ceiling_correct [of "1 / q"] by simp
  with cge have "2 ^ nat (k - 1) < 1 / q" by linarith
  then have "2 powi (k - 1) < 1 / q" by (simp only: p2)
  then have "q < 1 / 2 powi (k - 1)" using assms by (simp add: field_simps)
  also have "1 / 2 powi (k - 1) = (2::rat) powi (- (k - 1))"
    by (simp only: power_int_minus_divide)
  finally have B: "q < 2 powi (- k + 1)" by (simp add: algebra_simps)
  from A B show ?thesis by (simp add: e)
qed

lemma binade_unique:
  assumes "0 < q" and lo: "2 powi e \<le> q" and hi: "q < 2 powi (e + 1)"
  shows "binade q = e"
proof -
  from binade_bounds [OF assms(1)]
  have blo: "2 powi binade q \<le> q" and bhi: "q < 2 powi (binade q + 1)" by simp_all
  have "\<not> e < binade q"
  proof
    assume "e < binade q"
    then have "(2::rat) powi (e + 1) \<le> 2 powi binade q"
      by (intro power_int_increasing) simp_all
    with blo hi show False by linarith
  qed
  moreover have "\<not> binade q < e"
  proof
    assume "binade q < e"
    then have "(2::rat) powi (binade q + 1) \<le> 2 powi e"
      by (intro power_int_increasing) simp_all
    with lo bhi show False by linarith
  qed
  ultimately show ?thesis by simp
qed

lemma round_half_even_of_int [simp]: "round_half_even (of_int n) = n"
  by (simp add: round_half_even_def)

lemma round_half_even_cases:
  "(round_half_even x = \<lfloor>x\<rfloor> \<and> x - of_int \<lfloor>x\<rfloor> \<le> 1 / 2)
   \<or> (round_half_even x = \<lfloor>x\<rfloor> + 1 \<and> 1 / 2 \<le> x - of_int \<lfloor>x\<rfloor>)"
  unfolding round_half_even_def Let_def by (auto simp: not_less)

lemma round_half_even_bounds:
  "of_int (round_half_even x) \<le> x + 1 / 2 \<and> x - 1 / 2 \<le> of_int (round_half_even x)"
proof -
  have f: "of_int \<lfloor>x\<rfloor> \<le> x" "x < of_int \<lfloor>x\<rfloor> + 1" using floor_correct [of x] by simp_all
  from round_half_even_cases [of x] show ?thesis
  proof
    assume a: "round_half_even x = \<lfloor>x\<rfloor> \<and> x - of_int \<lfloor>x\<rfloor> \<le> 1 / 2"
    then have "of_int (round_half_even x) = (of_int \<lfloor>x\<rfloor> :: rat)" by simp
    then show ?thesis using f a by linarith
  next
    assume a: "round_half_even x = \<lfloor>x\<rfloor> + 1 \<and> 1 / 2 \<le> x - of_int \<lfloor>x\<rfloor>"
    then have "of_int (round_half_even x) = (of_int \<lfloor>x\<rfloor> :: rat) + 1" by simp
    then show ?thesis using f a by linarith
  qed
qed

lemma round_half_even_unique:
  assumes "\<bar>x - of_int m\<bar> < 1 / 2 \<or> (\<bar>x - of_int m\<bar> = 1 / 2 \<and> even m)"
  shows "round_half_even x = m"
proof -
  consider (a) "of_int m \<le> x" "x < of_int m + 1 / 2"
    | (b) "x < of_int m" "of_int m - 1 / 2 < x"
    | (c) "x = of_int m + 1 / 2" "even m"
    | (d) "x = of_int m - 1 / 2" "even m"
    using assms by (cases "of_int m \<le> x") (auto simp: abs_if algebra_simps)
  then show ?thesis
  proof cases
    case a
    have fl: "\<lfloor>x\<rfloor> = m" by (rule floor_unique) (use a in linarith)+
    have "x - of_int m < 1 / 2" using a by linarith
    then show ?thesis by (simp add: round_half_even_def Let_def fl)
  next
    case b
    have m1: "(of_int (m - 1) :: rat) = of_int m - 1" by simp
    have fl: "\<lfloor>x\<rfloor> = m - 1" by (rule floor_unique) (use b m1 in linarith)+
    have "1 / 2 < x - of_int (m - 1)" using b m1 by linarith
    then show ?thesis by (simp add: round_half_even_def Let_def fl)
  next
    case c
    have fl: "\<lfloor>x\<rfloor> = m" by (rule floor_unique) (use c in simp_all)
    have r: "x - of_int m = 1 / 2" using c by simp
    show ?thesis unfolding round_half_even_def Let_def fl r using c(2) by simp
  next
    case d
    have fl: "\<lfloor>x\<rfloor> = m - 1" by (rule floor_unique) (use d in simp_all)
    have r: "x - of_int (m - 1) = 1 / 2" using d by simp
    show ?thesis unfolding round_half_even_def Let_def fl r using d(2) by simp
  qed
qed

lemma round_half_even_nonneg: "0 \<le> x \<Longrightarrow> 0 \<le> round_half_even x"
  by (auto simp: round_half_even_def Let_def intro: order_trans)

lemma round_half_even_ge_1: "1 \<le> x \<Longrightarrow> 1 \<le> round_half_even x"
proof -
  assume "1 \<le> x"
  then have "1 \<le> \<lfloor>x\<rfloor>" by simp
  then show ?thesis by (auto simp: round_half_even_def Let_def)
qed

lemma round_pos_eval:
  assumes "0 < q" and "2 powi e \<le> q" and "q < 2 powi (e + 1)" and "- 1022 \<le> e"
    and "\<bar>q / 2 powi (e - 52) - of_int m\<bar> < 1 / 2
         \<or> (\<bar>q / 2 powi (e - 52) - of_int m\<bar> = 1 / 2 \<and> even m)"
    and "of_int m * 2 powi (e - 52) = r" and "r < 2 powi 1024"
  shows "round_pos q = Fin r"
proof -
  have "binade q = e" by (rule binade_unique) fact+
  then have "max (binade q) (- 1022) = e" using assms(4) by simp
  moreover have "round_half_even (q / 2 powi (e - 52)) = m"
    by (rule round_half_even_unique) fact
  ultimately show ?thesis using assms(6,7) by (simp add: round_pos_def Let_def)
qed

lemma round_double_eval:
  assumes "0 < q" and "2 powi e \<le> q" and "q < 2 powi (e + 1)" and "- 1022 \<le> e"
    and "\<bar>q / 2 powi (e - 52) - of_int m\<bar> < 1 / 2
         \<or> (\<bar>q / 2 powi (e - 52) - of_int m\<bar> = 1 / 2 \<and> even m)"
    and "of_int m * 2 powi (e - 52) = r" and "r < 2 powi 1024"
  shows "round_double q = Fin r"
  using round_pos_eval [OF assms] assms(1) by (simp add: round_double_def)

lemma pow2_pos [simp]: "0 < (2::rat) powi e"
  by (simp add: zero_less_power_int)

text \<open>What rounding a positive number gives: infinity, or a value within half a quantum.\<close>

lemma round_pos_cases:
  assumes "0 < q"
  defines "Q \<equiv> 2 powi (max (binade q) (- 1022) - 52)"
  shows "round_pos q = PInf
         \<or> (\<exists>m. 0 \<le> m \<and> round_pos q = Fin (of_int m * Q) \<and> of_int m * Q < 2 powi 1024
                \<and> \<bar>of_int m * Q - q\<bar> \<le> Q / 2 \<and> m = round_half_even (q / Q))"
proof -
  define m where "m = round_half_even (q / Q)"
  have Qpos: "0 < Q" by (simp add: Q_def)
  have "0 \<le> q / Q" using assms(1) Qpos by simp
  then have m0: "0 \<le> m" unfolding m_def by (rule round_half_even_nonneg)
  from round_half_even_bounds [of "q / Q"]
  have "of_int m \<le> q / Q + 1 / 2" "q / Q - 1 / 2 \<le> of_int m" by (simp_all add: m_def)
  then have "of_int m * Q \<le> q + Q / 2" "q - Q / 2 \<le> of_int m * Q"
    using Qpos by (simp_all add: field_simps)
  then have err: "\<bar>of_int m * Q - q\<bar> \<le> Q / 2" by linarith
  have r: "round_pos q = (if 2 powi 1024 \<le> of_int m * Q then PInf else Fin (of_int m * Q))"
    by (simp add: round_pos_def Let_def m_def Q_def)
  show ?thesis
  proof (cases "2 powi 1024 \<le> of_int m * Q")
    case True
    then show ?thesis by (simp add: r)
  next
    case False
    then show ?thesis using m0 err by (auto simp: r m_def)
  qed
qed

lemma binade_less:
  assumes "0 < q" and "q < 2 powi k"
  shows "binade q < k"
proof (rule ccontr)
  assume "\<not> binade q < k"
  then have "(2::rat) powi k \<le> 2 powi binade q" by (intro power_int_increasing) simp_all
  with binade_bounds [OF assms(1)] assms(2) show False by linarith
qed

lemma binade_ge:
  assumes "0 < q" and "2 powi k \<le> q"
  shows "k \<le> binade q"
proof (rule ccontr)
  assume "\<not> k \<le> binade q"
  then have "(2::rat) powi (binade q + 1) \<le> 2 powi k" by (intro power_int_increasing) simp_all
  with binade_bounds [OF assms(1)] assms(2) show False by linarith
qed

lemma round_pos_finite:
  assumes "0 < q" and "q < 2 powi 1023"
  shows "\<exists>r. round_pos q = Fin r \<and> 0 \<le> r
             \<and> \<bar>r - q\<bar> \<le> 2 powi (max (binade q) (- 1022) - 53)"
proof -
  define Q :: rat where "Q = 2 powi (max (binade q) (- 1022) - 52)"
  define m where "m = round_half_even (q / Q)"
  have Qpos: "0 < Q" by (simp add: Q_def)
  have b: "binade q < 1023" by (rule binade_less) fact+
  then have "max (binade q) (- 1022) - 52 \<le> 970" by simp
  then have Q970: "Q \<le> 2 powi 970" unfolding Q_def by (intro power_int_increasing) simp_all
  have half: "Q / 2 = 2 powi (max (binade q) (- 1022) - 53)"
    using power_int_diff [of "2::rat" "max (binade q) (- 1022) - 52" 1]
    by (simp add: Q_def)
  have "0 \<le> q / Q" using assms(1) Qpos by simp
  then have "0 \<le> m" unfolding m_def by (rule round_half_even_nonneg)
  then have nn: "0 \<le> of_int m * Q" using Qpos by simp
  from round_half_even_bounds [of "q / Q"]
  have "of_int m \<le> q / Q + 1 / 2" "q / Q - 1 / 2 \<le> of_int m" by (simp_all add: m_def)
  then have up: "of_int m * Q \<le> q + Q / 2" and dn: "q - Q / 2 \<le> of_int m * Q"
    using Qpos by (simp_all add: field_simps)
  have err: "\<bar>of_int m * Q - q\<bar> \<le> Q / 2" using up dn by linarith
  have p: "(2::rat) powi 1023 + 2 powi 970 < 2 powi 1024" by simp
  have "of_int m * Q < 2 powi 1024" using up assms(2) Q970 Qpos p by linarith
  then have "round_pos q = Fin (of_int m * Q)"
    by (simp add: round_pos_def Let_def Q_def [symmetric] m_def [symmetric] not_le [symmetric]
        del: power_int_numeral)
  with nn err show ?thesis unfolding half by blast
qed

lemma round_pos_normal:
  assumes lo: "2 powi (- 1022) \<le> q" and hi: "q < 2 powi 1023"
  shows "\<exists>r. round_pos q = Fin r \<and> 0 < r \<and> \<bar>r - q\<bar> \<le> q / 2 ^ 53"
proof -
  have qpos: "0 < q" using lo pow2_pos [of "- 1022"] by linarith
  have "- 1022 \<le> binade q" by (rule binade_ge) fact+
  then have mx: "max (binade q) (- 1022) = binade q" by simp
  from round_pos_finite [OF qpos hi] obtain r where
    r: "round_pos q = Fin r" "0 \<le> r" "\<bar>r - q\<bar> \<le> 2 powi (binade q - 53)"
    unfolding mx by blast
  have "(2::rat) powi (binade q - 53) = 2 powi binade q / 2 ^ 53"
    using power_int_diff [of "2::rat" "binade q" 53] by simp
  also have "\<dots> \<le> q / 2 ^ 53"
    using binade_bounds [OF qpos] by (simp add: divide_right_mono)
  finally have e: "\<bar>r - q\<bar> \<le> q / 2 ^ 53" using r(3) by linarith
  have "q / 2 ^ 53 < q" using qpos by (simp add: field_simps)
  with e have "0 < r" by linarith
  with r(1) e show ?thesis by blast
qed

lemma round_double_finite:
  assumes "\<bar>q\<bar> < 2 powi 1023"
  shows "\<exists>r. round_double q = Fin r \<and> (0 \<le> q \<longrightarrow> 0 \<le> r) \<and> (q \<le> 0 \<longrightarrow> r \<le> 0)"
proof -
  consider "q = 0" | "0 < q" | "q < 0" by linarith
  then show ?thesis
  proof cases
    case 1
    then show ?thesis by (simp add: round_double_def)
  next
    case 2
    with assms have "q < 2 powi 1023" by simp
    from round_pos_finite [OF 2 this] 2 show ?thesis by (auto simp: round_double_def)
  next
    case 3
    with assms have "0 < - q" "- q < 2 powi 1023" by simp_all
    from round_pos_finite [OF this] 3 show ?thesis by (auto simp: round_double_def)
  qed
qed

lemma round_double_normal:
  assumes "2 powi (- 1022) \<le> \<bar>q\<bar>" and "\<bar>q\<bar> < 2 powi 1023"
  shows "\<exists>r. round_double q = Fin r \<and> (0 < q \<longrightarrow> 0 < r) \<and> (q < 0 \<longrightarrow> r < 0)
             \<and> \<bar>r - q\<bar> \<le> \<bar>q\<bar> / 2 ^ 53"
proof -
  have "q \<noteq> 0" using assms(1) pow2_pos [of "- 1022"] by auto
  then consider "0 < q" | "q < 0" by linarith
  then show ?thesis
  proof cases
    case 1
    with assms have "2 powi (- 1022) \<le> q" "q < 2 powi 1023" by simp_all
    from round_pos_normal [OF this] 1 show ?thesis by (auto simp: round_double_def)
  next
    case 2
    with assms have "2 powi (- 1022) \<le> - q" "- q < 2 powi 1023" by simp_all
    from round_pos_normal [OF this] obtain r where
      r: "round_pos (- q) = Fin r" "0 < r" "\<bar>r - (- q)\<bar> \<le> (- q) / 2 ^ 53" by blast
    have "round_double q = Fin (- r)" using 2 r(1) by (simp add: round_double_def)
    moreover have "\<bar>(- r) - q\<bar> \<le> \<bar>q\<bar> / 2 ^ 53" using r(3) 2 by (simp add: abs_if split: if_splits)
    ultimately show ?thesis using r(2) 2 by auto
  qed
qed

lemma round_pos_exact:
  assumes "0 < q" and "q / 2 powi (max (binade q) (- 1022) - 52) = of_int k"
    and "q < 2 powi 1024"
  shows "round_pos q = Fin q"
proof -
  have "of_int k * 2 powi (max (binade q) (- 1022) - 52) = q"
    using assms(2) by (simp add: field_simps)
  then show ?thesis using assms(2,3)
    by (simp add: round_pos_def Let_def not_le [symmetric] del: power_int_numeral)
qed

lemma round_pos_of_int:
  assumes "0 < m" and "m \<le> 2 ^ 53"
  shows "round_pos (of_int m) = Fin (of_int m)"
proof -
  define q :: rat where "q = of_int m"
  have qpos: "0 < q" and q1: "1 \<le> q" using assms(1) by (simp_all add: q_def)
  have "q \<le> of_int (2 ^ 53)" unfolding q_def using assms(2) by (simp only: of_int_le_iff)
  then have q53: "q \<le> 2 ^ 53" by simp
  have "(2::rat) powi 0 \<le> q" using q1 by simp
  then have e0: "0 \<le> binade q" by (rule binade_ge [OF qpos])
  have "q < 2 powi 54" using q53 by simp
  then have e53: "binade q \<le> 53" using binade_less [OF qpos] by fastforce
  have mx: "max (binade q) (- 1022) = binade q" using e0 by simp
  have "\<exists>k. q / 2 powi (binade q - 52) = of_int k"
  proof (cases "binade q \<le> 52")
    case True
    have "1 / (2::rat) powi (binade q - 52) = 2 powi (- (binade q - 52))"
      by (simp only: power_int_minus_divide)
    also have "\<dots> = 2 ^ nat (52 - binade q)" using True by (simp add: power_int_nonneg_exp)
    finally have "q / 2 powi (binade q - 52) = of_int (m * 2 ^ nat (52 - binade q))"
      by (simp add: q_def field_simps)
    then show ?thesis by blast
  next
    case False
    with e53 have e: "binade q = 53" by simp
    from binade_bounds [OF qpos] have "2 ^ 53 \<le> q" by (simp add: e)
    with q53 have "q = 2 ^ 53" by simp
    moreover have "(2::rat) powi (binade q - 52) = 2" by (simp add: e)
    ultimately have "q / 2 powi (binade q - 52) = of_int (2 ^ 52)" by simp
    then show ?thesis by blast
  qed
  then obtain k where "q / 2 powi (max (binade q) (- 1022) - 52) = of_int k"
    unfolding mx by blast
  moreover have "q < 2 powi 1024" using q53 by simp
  ultimately have "round_pos q = Fin q" by (rule round_pos_exact [OF qpos])
  then show ?thesis by (simp add: q_def)
qed

lemma round_double_of_int:
  assumes "\<bar>m\<bar> \<le> 2 ^ 53"
  shows "round_double (of_int m) = Fin (of_int m)"
proof -
  consider "m = 0" | "0 < m" | "m < 0" by linarith
  then show ?thesis
  proof cases
    case 1
    then show ?thesis by (simp add: round_double_def)
  next
    case 2
    with assms have "m \<le> 2 ^ 53" by simp
    from round_pos_of_int [OF 2 this] 2 show ?thesis by (simp add: round_double_def)
  next
    case 3
    with assms have "0 < - m" "- m \<le> 2 ^ 53" by simp_all
    from round_pos_of_int [OF this] 3 show ?thesis by (simp add: round_double_def)
  qed
qed

text \<open>Rounding never changes the side of zero a number is on.\<close>

lemma round_pos_sign:
  assumes "0 < q"
  shows "round_pos q = PInf \<or> (\<exists>r. round_pos q = Fin r \<and> 0 \<le> r)"
proof -
  have "0 \<le> q / 2 powi (max (binade q) (- 1022) - 52)" using assms by simp
  then have "0 \<le> round_half_even (q / 2 powi (max (binade q) (- 1022) - 52))"
    by (rule round_half_even_nonneg)
  then show ?thesis by (simp add: round_pos_def Let_def del: power_int_numeral)
qed

lemma round_double_nonneg:
  "0 \<le> q \<Longrightarrow> round_double q = PInf \<or> (\<exists>r. round_double q = Fin r \<and> 0 \<le> r)"
  using round_pos_sign [of q] by (cases "q = 0") (auto simp: round_double_def)

lemma round_double_nonpos:
  "q \<le> 0 \<Longrightarrow> round_double q = NInf \<or> (\<exists>r. round_double q = Fin r \<and> r \<le> 0)"
  using round_pos_sign [of "- q"] by (cases "q = 0") (auto simp: round_double_def)

text \<open>Negation, and the numbers that rounding leaves alone.\<close>

lemma js_neg_js_neg [simp]: "js_neg (js_neg x) = x"
  by (cases x) simp_all

lemma round_double_minus: "round_double (- q) = js_neg (round_double q)"
  by (simp add: round_double_def)

lemma round_double_numeral [simp]:
  "round_double (numeral k) =
     (if (numeral k :: int) \<le> 9007199254740992 then Fin (numeral k) else round_pos (numeral k))"
proof (cases "(numeral k :: int) \<le> 9007199254740992")
  case True
  then have "\<bar>numeral k :: int\<bar> \<le> 2 ^ 53" by simp
  from round_double_of_int [OF this] True show ?thesis by simp
next
  case False
  then show ?thesis by (simp add: round_double_def)
qed

lemma round_double_0 [simp]: "round_double 0 = Fin 0"
  by (simp add: round_double_def)

lemma round_double_1 [simp]: "round_double 1 = Fin 1"
  using round_double_of_int [of 1] by simp

section \<open>Time values and the number of days\<close>

lemma ms_range: "\<bar>ms t\<bar> \<le> 8640000000000000"
  using Rep_time_value [of t] by (simp add: ms_def)

lemma ms_time_of: "\<bar>t\<bar> \<le> 8640000000000000 \<Longrightarrow> ms (time_of t) = t"
  by (simp add: ms_def time_of_def Abs_time_value_inverse)

lemma ms_time_of_numeral [simp]:
  "ms (time_of (numeral k)) = (if (numeral k :: int) \<le> 8640000000000000 then numeral k else 0)"
  by (simp add: ms_def time_of_def Abs_time_value_inverse)

lemma ms_time_of_0 [simp]: "ms (time_of 0) = 0"
  by (simp add: ms_time_of)

lemma ms_inject: "ms a = ms b \<longleftrightarrow> a = b"
  by (simp add: ms_def Rep_time_value_inject)

text \<open>
  The number of days computed from a difference \<open>D\<close> of two time values: the
  difference is rounded, divided by the milliseconds of a day, rounded again, and the
  ceiling is taken. The result is an integer with the sign behaviour of \<open>D\<close>
  (positive exactly when \<open>D\<close> is), and it is the ceiling of the exact quotient
  when \<open>D\<close> is below \<open>2^53\<close> in magnitude.
\<close>

lemma day_count:
  fixes D :: int
  assumes D: "\<bar>D\<bar> < 2 ^ 55"
  shows "\<exists>c. js_ceil (js_div (round_double (of_int D)) (Fin 86400000)) = Fin (of_int c)
           \<and> (c \<le> 0 \<longleftrightarrow> D \<le> 0)
           \<and> (\<bar>D\<bar> < 2 ^ 53 \<longrightarrow> c = \<lceil>(of_int D :: rat) / 86400000\<rceil>)"
proof (cases "D = 0")
  case True
  then show ?thesis by simp
next
  case False
  define q1 :: rat where "q1 = of_int D"
  have q1abs: "1 \<le> \<bar>q1\<bar>"
  proof -
    from False have "1 \<le> \<bar>D\<bar>" by simp
    then have "(of_int 1 :: rat) \<le> of_int \<bar>D\<bar>" by (simp only: of_int_le_iff)
    then show ?thesis by (simp add: q1_def)
  qed
  have q1hi: "\<bar>q1\<bar> < 2 ^ 55"
  proof -
    from D have "(of_int \<bar>D\<bar> :: rat) < of_int (2 ^ 55)" by (simp only: of_int_less_iff)
    then show ?thesis by (simp add: q1_def)
  qed
  have lo1: "2 powi (- 1022) \<le> \<bar>q1\<bar>"
  proof -
    have "(2::rat) powi (- 1022) \<le> 2 powi 0" by (rule power_int_increasing) simp_all
    with q1abs show ?thesis by simp
  qed
  have hi1: "\<bar>q1\<bar> < 2 powi 1023"
  proof -
    have "(2::rat) powi 55 \<le> 2 powi 1023" by (rule power_int_increasing) simp_all
    moreover have "(2::rat) powi 55 = 2 ^ 55" by simp
    ultimately show ?thesis using q1hi by (simp del: power_int_numeral)
  qed
  from round_double_normal [OF lo1 hi1]
  obtain r1 where r1: "round_double q1 = Fin r1" and s1p: "0 < q1 \<longrightarrow> 0 < r1"
    and s1n: "q1 < 0 \<longrightarrow> r1 < 0" and e1: "\<bar>r1 - q1\<bar> \<le> \<bar>q1\<bar> / 2 ^ 53" by blast
  have half1: "\<bar>r1 - q1\<bar> \<le> \<bar>q1\<bar> / 2"
  proof -
    have "\<bar>q1\<bar> / 2 ^ 53 \<le> \<bar>q1\<bar> / 2" by (simp add: field_simps)
    with e1 show ?thesis by linarith
  qed
  have r1lo: "1 / 2 \<le> \<bar>r1\<bar>"
    using half1 q1abs abs_triangle_ineq4 [of r1 "r1 - q1"] by simp
  have r1hi: "\<bar>r1\<bar> < 2 ^ 56"
    using half1 q1hi abs_triangle_ineq [of "r1 - q1" q1] by simp
  define q2 where "q2 = r1 / 86400000"
  have q2lo: "1 / 172800000 \<le> \<bar>q2\<bar>" using r1lo by (simp add: q2_def field_simps)
  have q2hi: "\<bar>q2\<bar> < 2 ^ 56" using r1hi by (simp add: q2_def field_simps)
  have lo2: "2 powi (- 1022) \<le> \<bar>q2\<bar>"
  proof -
    have "(2::rat) powi (- 1022) \<le> 2 powi (- 28)" by (rule power_int_increasing) simp_all
    also have "\<dots> = 1 / 2 ^ 28" by (simp add: power_int_minus_divide)
    also have "\<dots> \<le> 1 / 172800000" by simp
    finally show ?thesis using q2lo by linarith
  qed
  have hi2: "\<bar>q2\<bar> < 2 powi 1023"
  proof -
    have "(2::rat) powi 56 \<le> 2 powi 1023" by (rule power_int_increasing) simp_all
    moreover have "(2::rat) powi 56 = 2 ^ 56" by simp
    ultimately show ?thesis using q2hi by (simp del: power_int_numeral)
  qed
  from round_double_normal [OF lo2 hi2]
  obtain r2 where r2: "round_double q2 = Fin r2" and s2p: "0 < q2 \<longrightarrow> 0 < r2"
    and s2n: "q2 < 0 \<longrightarrow> r2 < 0" and e2: "\<bar>r2 - q2\<bar> \<le> \<bar>q2\<bar> / 2 ^ 53" by blast
  have val: "js_ceil (js_div (round_double (of_int D)) (Fin 86400000)) = Fin (of_int \<lceil>r2\<rceil>)"
    using r1 r2 by (simp add: q1_def q2_def)
  have sign: "\<lceil>r2\<rceil> \<le> 0 \<longleftrightarrow> D \<le> 0"
  proof (cases "0 < D")
    case True
    then have "0 < q1" by (simp add: q1_def)
    with s1p have "0 < r1" by simp
    then have "0 < q2" by (simp add: q2_def)
    with s2p have "0 < r2" by simp
    then have "0 < \<lceil>r2\<rceil>" by simp
    with True show ?thesis by simp
  next
    case F: False
    with False have "D < 0" by simp
    then have "q1 < 0" by (simp add: q1_def)
    with s1n have "r1 < 0" by simp
    then have "q2 < 0" by (simp add: q2_def field_simps)
    with s2n have "r2 < 0" by simp
    then have "\<lceil>r2\<rceil> \<le> 0" by (simp add: ceiling_le_iff)
    with F show ?thesis by simp
  qed
  have exact: "\<lceil>r2\<rceil> = \<lceil>(of_int D :: rat) / 86400000\<rceil>" if small: "\<bar>D\<bar> < 2 ^ 53"
  proof -
    from small have "\<bar>D\<bar> \<le> 2 ^ 53" by simp
    from round_double_of_int [OF this] r1 have r1D: "r1 = of_int D" by (simp add: q1_def)
    define k where "k = \<lceil>(of_int D :: rat) / 86400000\<rceil>"
    have q2D: "q2 = of_int D / 86400000" by (simp add: q2_def r1D)
    have kub: "q2 \<le> of_int k" and klb: "of_int k - 1 < q2"
      unfolding k_def q2D by linarith+
    have Dk: "D \<le> 86400000 * k"
    proof -
      from kub have "(of_int D :: rat) \<le> of_int (86400000 * k)" by (simp add: q2D field_simps)
      then show ?thesis by (simp only: of_int_le_iff)
    qed
    have Dk1: "86400000 * (k - 1) + 1 \<le> D"
    proof -
      from klb have "(of_int (86400000 * (k - 1)) :: rat) < of_int D" by (simp add: q2D field_simps)
      then have "86400000 * (k - 1) < D" by (simp only: of_int_less_iff)
      then show ?thesis by simp
    qed
    have q2lb: "of_int k - 1 + 1 / 86400000 \<le> q2"
    proof -
      from Dk1 have "(of_int (86400000 * (k - 1) + 1) :: rat) \<le> of_int D" by (simp only: of_int_le_iff)
      then show ?thesis by (simp add: q2D field_simps)
    qed
    have q2small: "\<bar>q2\<bar> / 2 ^ 53 < 1 / 86400000"
    proof -
      from small have "(of_int \<bar>D\<bar> :: rat) < of_int (2 ^ 53)" by (simp only: of_int_less_iff)
      then have "\<bar>of_int D :: rat\<bar> < 2 ^ 53" by simp
      then show ?thesis by (simp add: q2D field_simps)
    qed
    have lb: "of_int k - 1 < r2" using e2 q2small q2lb by linarith
    have ub: "r2 \<le> of_int k"
    proof (cases "D = 86400000 * k")
      case True
      then have q2k: "q2 = of_int k" by (simp add: q2D)
      have "\<bar>k\<bar> \<le> 2 ^ 53" using small True by simp
      from round_double_of_int [OF this] r2 show ?thesis by (simp add: q2k)
    next
      case False
      with Dk have "D + 1 \<le> 86400000 * k" by simp
      then have "(of_int (D + 1) :: rat) \<le> of_int (86400000 * k)" by (simp only: of_int_le_iff)
      then have "q2 + 1 / 86400000 \<le> of_int k" by (simp add: q2D field_simps)
      with e2 q2small show ?thesis by linarith
    qed
    from lb ub have "\<lceil>r2\<rceil> = k" by (simp add: ceiling_unique)
    then show ?thesis by (simp add: k_def)
  qed
  from val sign exact show ?thesis by blast
qed

text \<open>The number of days when the payday parses, and when it does not.\<close>

lemma days_until_parsed:
  assumes "parse_date e (paydate s @ ''T23:59:59'') = Some t"
  shows "\<exists>c. days_until e s = Fin (of_int c)
           \<and> (c \<le> 0 \<longleftrightarrow> ms t \<le> ms (now_date e))
           \<and> (\<bar>ms t - ms (now_date e)\<bar> < 2 ^ 53 \<longrightarrow>
                c = \<lceil>(of_int (ms t - ms (now_date e)) :: rat) / 86400000\<rceil>)"
proof -
  have "\<bar>ms t - ms (now_date e)\<bar> < 2 ^ 55"
    using ms_range [of t] ms_range [of "now_date e"] by simp
  from day_count [OF this] obtain c where
    c: "js_ceil (js_div (round_double (of_int (ms t - ms (now_date e)))) (Fin 86400000))
          = Fin (of_int c)"
    "c \<le> 0 \<longleftrightarrow> ms t - ms (now_date e) \<le> 0"
    "\<bar>ms t - ms (now_date e)\<bar> < 2 ^ 53 \<longrightarrow>
       c = \<lceil>(of_int (ms t - ms (now_date e)) :: rat) / 86400000\<rceil>"
    by blast
  have "days_until e s
        = js_ceil (js_div (round_double (of_int (ms t - ms (now_date e)))) (Fin 86400000))"
    using assms by (simp add: days_until_def date_value_def day_ms_def js_sub_def Let_def)
  with c show ?thesis by auto
qed

lemma days_until_exact:
  assumes "parse_date e (paydate s @ ''T23:59:59'') = Some t"
    and "\<bar>ms t - ms (now_date e)\<bar> < 2 ^ 53"
  shows "days_until e s = Fin (of_int \<lceil>(of_int (ms t - ms (now_date e)) :: rat) / 86400000\<rceil>)"
  using days_until_parsed [OF assms(1)] assms(2) by auto

lemma days_until_unparsed:
  "parse_date e (paydate s @ ''T23:59:59'') = None \<Longrightarrow> days_until e s = NaN"
  by (simp add: days_until_def date_value_def day_ms_def js_sub_def Let_def)

section \<open>The floor of a rounded quotient\<close>

text \<open>
  A positive double below \<open>2^53\<close> is \<open>n / 2^j\<close> for an integer
  \<open>n < 2^53\<close>. Dividing it by a positive integer \<open>d\<close> and rounding the quotient
  to a double cannot reach the next integer above the exact quotient, and cannot fall
  below the integer part of it: the floor of the rounded quotient is the floor of
  the exact one.
\<close>

lemma round_half_even_ge_int: "of_int n \<le> x \<Longrightarrow> n \<le> round_half_even x"
proof -
  assume "of_int n \<le> x"
  then have "n \<le> \<lfloor>x\<rfloor>" by (simp add: le_floor_iff)
  with round_half_even_cases [of x] show ?thesis by auto
qed

lemma pow2_grid:
  assumes "E \<le> 52"
  shows "(2::rat) powi (E - 52) = 1 / 2 ^ nat (52 - E)"
proof -
  have "(2::rat) powi (E - 52) = 2 powi (- (52 - E))" by simp
  also have "\<dots> = 1 / 2 powi (52 - E)" by (rule power_int_minus_divide)
  also have "(2::rat) powi (52 - E) = 2 ^ nat (52 - E)"
    using assms by (simp add: power_int_nonneg_exp)
  finally show ?thesis .
qed

lemma round_pos_grid:
  assumes qpos: "0 < q" and rb: "round_pos q = Fin b" and bpos: "0 < b" and b53: "b < 2 ^ 53"
  shows "\<exists>n j. b = of_int n / 2 ^ j \<and> 0 < n \<and> n < 2 ^ 53"
proof -
  define E where "E = max (binade q) (- 1022)"
  define Q :: rat where "Q = 2 powi (E - 52)"
  have Qpos: "0 < Q" by (simp add: Q_def)
  from round_pos_cases [OF qpos] rb obtain m where
    m0: "0 \<le> m" and bm: "b = of_int m * Q" and mdef: "m = round_half_even (q / Q)"
    unfolding E_def [symmetric] Q_def [symmetric] by auto
  from binade_bounds [OF qpos] have lo: "2 powi binade q \<le> q" and hi: "q < 2 powi (binade q + 1)"
    by simp_all
  have E52: "E \<le> 52"
  proof (rule ccontr)
    assume "\<not> E \<le> 52"
    then have E53: "53 \<le> E" by simp
    then have Eb: "E = binade q" by (simp add: E_def max_def split: if_splits)
    have "(2::rat) powi E = 2 powi 52 * 2 powi (E - 52)"
      by (simp add: power_int_add [symmetric] del: power_int_numeral)
    then have "2 ^ 52 * Q \<le> q" using lo by (simp add: Q_def Eb)
    then have "(of_int (2 ^ 52) :: rat) \<le> q / Q" using Qpos by (simp add: field_simps)
    then have "2 ^ 52 \<le> m" unfolding mdef by (rule round_half_even_ge_int)
    then have "(of_int (2 ^ 52) :: rat) \<le> of_int m" by (simp only: of_int_le_iff)
    then have "2 ^ 52 * Q \<le> b" using Qpos by (simp add: bm)
    moreover have "2 \<le> Q"
    proof -
      have "(2::rat) powi 1 \<le> 2 powi (E - 52)" using E53 by (intro power_int_increasing) simp_all
      then show ?thesis by (simp add: Q_def)
    qed
    ultimately have "(2::rat) ^ 52 * 2 \<le> b"
      by (meson mult_left_mono order_trans zero_le_numeral zero_le_power)
    with b53 show False by simp
  qed
  define j0 where "j0 = nat (52 - E)"
  have Qj: "Q = 1 / 2 ^ j0" unfolding Q_def j0_def by (rule pow2_grid [OF E52])
  have m53: "m \<le> 2 ^ 53"
  proof -
    have "(2::rat) powi (binade q + 1) \<le> 2 powi (E + 1)"
      by (intro power_int_increasing) (simp_all add: E_def)
    also have "\<dots> = 2 powi 53 * 2 powi (E - 52)"
      using power_int_add [of "2::rat" 53 "E - 52"]
      by (simp add: add.commute del: power_int_numeral)
    finally have "q < 2 ^ 53 * Q" using hi by (simp add: Q_def)
    then have "q / Q < 2 ^ 53" using Qpos by (simp add: field_simps)
    moreover from round_half_even_bounds [of "q / Q"]
    have "of_int m \<le> q / Q + 1 / 2" by (simp add: mdef)
    ultimately have "(of_int m :: rat) < of_int (2 ^ 53 + 1)" by simp
    then have "m < 2 ^ 53 + 1" by (simp only: of_int_less_iff)
    then show ?thesis by simp
  qed
  have mpos: "0 < m"
  proof (rule ccontr)
    assume "\<not> 0 < m"
    with m0 have "m = 0" by simp
    with bm bpos show False by simp
  qed
  show ?thesis
  proof (cases "m < 2 ^ 53")
    case True
    have "b = of_int m / 2 ^ j0" by (simp add: bm Qj)
    with mpos True show ?thesis by blast
  next
    case False
    with m53 have m: "m = 2 ^ 53" by simp
    have b: "b = 2 ^ 53 / 2 ^ j0" by (simp add: bm Qj m)
    have "j0 \<noteq> 0" using b b53 by (cases "j0 = 0") simp_all
    then obtain j1 where j: "j0 = Suc j1" by (cases j0) simp_all
    have "b = of_int (2 ^ 52) / 2 ^ j1" by (simp add: b j)
    moreover have "(0::int) < 2 ^ 52" "(2::int) ^ 52 < 2 ^ 53" by simp_all
    ultimately show ?thesis by blast
  qed
qed

lemma round_pos_ge_int:
  assumes qpos: "0 < q" and q53: "q < 2 ^ 53" and kq: "of_int k \<le> q"
  shows "\<exists>r. round_pos q = Fin r \<and> of_int k \<le> r
            \<and> \<bar>r - q\<bar> \<le> 2 powi (max (binade q) (- 1022) - 53)"
proof -
  define E where "E = max (binade q) (- 1022)"
  define Q :: rat where "Q = 2 powi (E - 52)"
  have Qpos: "0 < Q" by (simp add: Q_def)
  have q1023: "q < 2 powi 1023" using q53 by simp
  from round_pos_finite [OF qpos q1023] obtain r where
    r: "round_pos q = Fin r" and err: "\<bar>r - q\<bar> \<le> 2 powi (E - 53)"
    unfolding E_def by blast
  from round_pos_cases [OF qpos] r have rm: "r = of_int (round_half_even (q / Q)) * Q"
    unfolding E_def [symmetric] Q_def [symmetric] by auto
  have "q < 2 powi 53" using q53 by simp
  from binade_less [OF qpos this] have E52: "E \<le> 52" by (simp add: E_def)
  define j0 where "j0 = nat (52 - E)"
  have Qj: "Q = 1 / 2 ^ j0" unfolding Q_def j0_def by (rule pow2_grid [OF E52])
  have "(of_int (k * 2 ^ j0) :: rat) \<le> q / Q" using kq by (simp add: Qj)
  then have "k * 2 ^ j0 \<le> round_half_even (q / Q)" by (rule round_half_even_ge_int)
  then have "(of_int (k * 2 ^ j0) :: rat) \<le> of_int (round_half_even (q / Q))"
    by (simp only: of_int_le_iff)
  then have "of_int k \<le> r" by (simp add: rm Qj field_simps)
  with r err show ?thesis unfolding E_def by blast
qed

lemma floor_quotient:
  assumes b: "b = of_int n / 2 ^ j" and npos: "0 < n" and n53: "n < 2 ^ 53" and d1: "1 \<le> d"
  shows "js_floor (js_div (Fin b) (Fin (of_int d))) = Fin (of_int \<lfloor>b / of_int d\<rfloor>)"
proof -
  define q where "q = b / of_int d"
  define E where "E = max (binade q) (- 1022)"
  define M :: int where "M = d * 2 ^ j"
  define Mr :: rat where "Mr = of_int M"
  have dpos: "(0::rat) < of_int d" using d1 by simp
  have M1: "1 \<le> M"
  proof -
    have "1 * 1 \<le> d * (2::int) ^ j" using d1 by (intro mult_mono) simp_all
    then show ?thesis by (simp add: M_def)
  qed
  then have "(of_int 1 :: rat) \<le> of_int M" by (simp only: of_int_le_iff)
  then have Mr1: "1 \<le> Mr" by (simp add: Mr_def)
  then have Mrpos: "0 < Mr" by simp
  have Mr_eq: "Mr = of_int d * 2 ^ j" by (simp add: Mr_def M_def)
  have bpos: "0 < b" using npos by (simp add: b)
  have nr: "(of_int n :: rat) < 2 ^ 53"
  proof -
    from n53 have "(of_int n :: rat) < of_int (2 ^ 53)" by (simp only: of_int_less_iff)
    then show ?thesis by simp
  qed
  have qpos: "0 < q" using bpos dpos by (simp add: q_def)
  have qn: "q * Mr = of_int n" using dpos by (simp add: q_def b Mr_eq)
  have q53: "q < 2 ^ 53"
  proof -
    have "q * 1 \<le> q * Mr" using Mr1 qpos by (intro mult_left_mono) simp_all
    with qn nr show ?thesis by simp
  qed
  define k where "k = \<lfloor>q\<rfloor>"
  have kq: "of_int k \<le> q" and qk: "q < of_int k + 1" unfolding k_def by linarith+
  have k0: "0 \<le> k" using qpos by (simp add: k_def)
  from round_pos_ge_int [OF qpos q53 kq] obtain r where
    r: "round_pos q = Fin r" and kr: "of_int k \<le> r" and err: "\<bar>r - q\<bar> \<le> 2 powi (E - 53)"
    unfolding E_def by blast
  have rk: "r < of_int k + 1"
  proof (cases "- 1022 \<le> binade q")
    case True
    then have Eb: "E = binade q" by (simp add: E_def)
    from binade_bounds [OF qpos] have "2 powi E \<le> q" by (simp add: Eb)
    then have "2 powi E * Mr \<le> q * Mr" using Mrpos by (intro mult_right_mono) simp_all
    with qn nr have "2 powi E * Mr < 2 ^ 53" by simp
    moreover define X where "X = 2 powi (E - 53) * Mr"
    have "(2::rat) powi E = 2 powi (E - 53) * 2 ^ 53"
      by (simp add: power_int_diff)
    then have "2 powi E * Mr = X * 2 ^ 53" by (simp add: X_def)
    ultimately have "X * 2 ^ 53 < 2 ^ 53" by simp
    then have "X < 1" by simp
    then have small: "2 powi (E - 53) * Mr < 1" by (simp add: X_def)
    have "q * Mr < (of_int k + 1) * Mr" using qk Mrpos by (intro mult_strict_right_mono)
    with qn have "(of_int n :: rat) < (of_int k + 1) * Mr" by simp
    then have "(of_int n :: rat) < of_int ((k + 1) * M)" by (simp add: Mr_def)
    then have "n < (k + 1) * M" by (simp only: of_int_less_iff)
    then have "n + 1 \<le> (k + 1) * M" by simp
    then have "(of_int (n + 1) :: rat) \<le> of_int ((k + 1) * M)" by (simp only: of_int_le_iff)
    then have "of_int n + 1 \<le> (of_int k + 1) * Mr" by (simp add: Mr_def)
    with qn have gap: "q * Mr + 1 \<le> (of_int k + 1) * Mr" by simp
    have "r - q \<le> 2 powi (E - 53)" using err by linarith
    then have "(r - q) * Mr \<le> 2 powi (E - 53) * Mr"
      using Mrpos by (intro mult_right_mono) simp_all
    with small have "(r - q) * Mr < 1" by linarith
    then have "r * Mr < q * Mr + 1" by (simp add: algebra_simps)
    with gap have "r * Mr < (of_int k + 1) * Mr" by linarith
    then show ?thesis using Mrpos by (simp add: mult_less_cancel_right)
  next
    case False
    then have Eb: "E = - 1022" and bl: "binade q + 1 \<le> - 1022" by (simp_all add: E_def)
    from binade_bounds [OF qpos] have "q < 2 powi (binade q + 1)" by simp
    also have "\<dots> \<le> 2 powi (- 1022)" using bl by (intro power_int_increasing) simp_all
    also have "\<dots> \<le> 2 powi (- 1)" by (intro power_int_increasing) simp_all
    finally have "q < 1 / 2" by (simp add: power_int_minus_divide)
    moreover have "(2::rat) powi (E - 53) \<le> 2 powi (- 1)"
      unfolding Eb by (intro power_int_increasing) simp_all
    then have "(2::rat) powi (E - 53) \<le> 1 / 2" by (simp add: power_int_minus_divide)
    ultimately have "r < 1" using err by linarith
    with k0 show ?thesis by simp
  qed
  from kr rk have "\<lfloor>r\<rfloor> = k" by (simp add: floor_unique)
  moreover have "js_div (Fin b) (Fin (of_int d)) = Fin r"
    using dpos qpos r bpos by (simp add: round_double_def q_def)
  ultimately show ?thesis by (simp add: k_def q_def)
qed

text \<open>What \<open>Number\<close> returns is a double, and so is the parsed balance.\<close>

lemma unsigned_decimal_cases:
  "unsigned_decimal s = NaN \<or> unsigned_decimal s = PInf \<or> (\<exists>q. unsigned_decimal s = round_double q)"
  by (auto simp: unsigned_decimal_def Let_def split: option.split)

lemma Number_cases:
  "Number s = NaN \<or> Number s = PInf \<or> Number s = NInf \<or> (\<exists>q. Number s = round_double q)"
proof -
  have neg: "js_neg (unsigned_decimal t) = NaN \<or> js_neg (unsigned_decimal t) = NInf
             \<or> (\<exists>q. js_neg (unsigned_decimal t) = round_double q)" for t
    using unsigned_decimal_cases [of t] by (auto simp: round_double_minus [symmetric])
  have zero: "\<exists>q. Fin 0 = round_double q" by (rule exI [of _ 0]) simp
  show ?thesis
    using neg [of "tl (trim s)"] unsigned_decimal_cases [of "tl (trim s)"]
      unsigned_decimal_cases [of "trim s"] zero
    by (auto simp: Number_def Let_def split: option.split)
qed

lemma parsed_balance_grid:
  assumes pb: "parsed_balance s = Fin b" and bpos: "0 < b" and b53: "b < 2 ^ 53"
  shows "\<exists>n j. b = of_int n / 2 ^ j \<and> 0 < n \<and> n < 2 ^ 53"
proof -
  have "parsed_balance s = Fin 0 \<or> (\<exists>t. parsed_balance s = Number t)"
    by (auto simp: parsed_balance_def Let_def split: option.split)
  with pb bpos obtain t where "Number t = Fin b" by auto
  with Number_cases [of t] obtain q where q: "round_double q = Fin b" by auto
  have qpos: "0 < q"
  proof (rule ccontr)
    assume "\<not> 0 < q"
    then have "q \<le> 0" by simp
    from round_double_nonpos [OF this] q bpos show False by auto
  qed
  with q have "round_pos q = Fin b" by (simp add: round_double_def)
  from round_pos_grid [OF qpos this bpos b53] show ?thesis .
qed

section \<open>Evaluation and case lemmas\<close>

subsection \<open>Rules for evaluating on numerals\<close>

declare nat_digits.simps [simp del]

lemma nat_digits_numeral [simp]:
  "nat_digits (numeral k) =
     (if (numeral k :: nat) < 10 then [digit_char (numeral k)]
      else nat_digits (numeral k div 10) @ [digit_char (numeral k mod 10)])"
  by (rule nat_digits.simps)

lemma nat_digits_0 [simp]: "nat_digits 0 = ''0''"
  by (simp add: nat_digits.simps [of 0] digit_char_def)

lemma nat_digits_1 [simp]: "nat_digits (Suc 0) = ''1''"
  by (simp add: nat_digits.simps [of "Suc 0"] digit_char_def)

lemma floor_rat_numeral [simp]: "\<lfloor>numeral a / numeral b :: rat\<rfloor> = numeral a div numeral b"
  by (metis floor_divide_of_int_eq of_int_numeral)

lemma ceiling_rat_numeral [simp]:
  "\<lceil>numeral a / numeral b :: rat\<rceil> = - (- numeral a div numeral b)"
  using floor_divide_of_int_eq [of "- numeral a" "numeral b", where ?'a = rat]
  by (simp add: ceiling_def)

lemma ceiling_rat_neg_numeral [simp]:
  "\<lceil>- (numeral a / numeral b) :: rat\<rceil> = - (numeral a div numeral b)"
  by (simp add: ceiling_def)

lemmas number_eval = Number_def trim_def is_ws_def non_decimal_literal_def unsigned_decimal_def
  is_digit_def digits_val_def digit_val_def exponent_part_def all_digits_def scale10_def
  strip_commas_def parsed_balance_def

lemmas date_eval = parse_iso_def TimeClip_def iso_local_def DayFromYear_def InLeapYear_def
  DaysInMonth_def MonthStart_def MakeDay_def MakeTime_def is_digit_def digits_val_def digit_val_def

subsection \<open>Numbers\<close>

lemma js_gt_zero_truthy: "js_gt x (Fin 0) \<Longrightarrow> to_boolean x"
  by (cases x) (auto simp: js_gt_def)

lemma round_double_not_NaN [simp]: "round_double q \<noteq> NaN"
  by (simp add: round_double_def round_pos_def Let_def del: power_int_numeral)

lemma js_floor_le_self: "x \<noteq> NaN \<Longrightarrow> js_le (js_floor x) x"
  by (cases x) (simp_all add: not_less)

lemma js_div_pos_not_NaN: "js_gt x (Fin 0) \<Longrightarrow> 0 < d \<Longrightarrow> js_div x (Fin d) \<noteq> NaN"
  by (cases x) (auto simp: js_gt_def signed_inf_def)

lemma js_floor_le:
  "js_gt x (Fin 0) \<Longrightarrow> 0 < d \<Longrightarrow> js_le (js_floor (js_div x (Fin d))) (js_div x (Fin d))"
  by (rule js_floor_le_self) (rule js_div_pos_not_NaN)

lemma parsed_balance_zero:
  "balance s = None \<or> (\<exists>b. balance s = Some b \<and> Number (strip_commas b) = Fin 0) \<Longrightarrow>
   parsed_balance s = Fin 0"
  by (auto simp: parsed_balance_def Let_def)

subsection \<open>The ways through the calculation\<close>

lemma usable_rate_matched:
  "useConversion s \<Longrightarrow> srcCurrency s \<noteq> dstCurrency s \<Longrightarrow> lastRate s = Some r \<Longrightarrow>
   from r = srcCurrency s \<Longrightarrow> to r = dstCurrency s \<Longrightarrow> usable_rate s = Some r"
  by (simp add: usable_rate_def)

lemma usable_rate_mismatched:
  "lastRate s = Some r \<Longrightarrow> from r \<noteq> srcCurrency s \<or> to r \<noteq> dstCurrency s \<Longrightarrow>
   usable_rate s = None"
  by (auto simp: usable_rate_def)

text \<open>The early return, the error, the plain budget and the converted budget.\<close>

lemma compute_neutral:
  "\<not> to_boolean (parsed_balance s) \<or> paydate s = [] \<Longrightarrow> compute e s = out0"
  by (auto simp: compute_def Let_def)

lemma compute_past:
  "to_boolean (parsed_balance s) \<Longrightarrow> paydate s \<noteq> [] \<Longrightarrow> js_le (days_until e s) (Fin 0) \<Longrightarrow>
   compute e s = out0\<lparr>error := ''Choose a future payday.''\<rparr>"
  by (simp add: compute_def Let_def)

lemma compute_plain:
  "to_boolean (parsed_balance s) \<Longrightarrow> paydate s \<noteq> [] \<Longrightarrow> \<not> js_le (days_until e s) (Fin 0) \<Longrightarrow>
   usable_rate s = None \<Longrightarrow>
   compute e s = out0\<lparr>daysLeft := days_until e s,
      amountDisplay := Some (formatMoney e (parsed_balance s) (srcCurrency s)),
      perDay := Some (js_floor (js_div (parsed_balance s) (days_until e s)))\<rparr>"
  by (simp add: compute_def Let_def)

lemma compute_converted:
  "to_boolean (parsed_balance s) \<Longrightarrow> paydate s \<noteq> [] \<Longrightarrow> \<not> js_le (days_until e s) (Fin 0) \<Longrightarrow>
   usable_rate s = Some r \<Longrightarrow>
   compute e s = out0\<lparr>daysLeft := days_until e s,
      amountDisplay := Some (formatMoney e (parsed_balance s) (srcCurrency s)),
      convertedDisplay := Some (formatMoney e (js_mul (parsed_balance s) (value r)) (dstCurrency s)),
      perDay := Some (js_floor (js_div (js_mul (parsed_balance s) (value r)) (days_until e s))),
      rateLine := rate_line e s r\<rparr>"
  by (simp add: compute_def Let_def)

lemma compute_no_rate:
  "usable_rate s = None \<Longrightarrow>
   convertedDisplay (compute e s) = None \<and> rateLine (compute e s) = []
   \<and> (\<forall>p. perDay (compute e s) = Some p \<longrightarrow>
          p = js_floor (js_div (parsed_balance s) (days_until e s)))"
  by (simp add: compute_def Let_def out0_def)

text \<open>The fields of the state that the calculation reads.\<close>

lemma compute_cong:
  "balance s = balance s' \<Longrightarrow> paydate s = paydate s' \<Longrightarrow> srcCurrency s = srcCurrency s' \<Longrightarrow>
   dstCurrency s = dstCurrency s' \<Longrightarrow> usable_rate s = usable_rate s' \<Longrightarrow>
   compute e s = compute e s'"
  by (simp add: compute_def parsed_balance_def days_until_def rate_line_def Let_def
      split: option.split)

subsection \<open>The runs of the rate coordinator\<close>

lemma maybeFetchRate_cases:
  "maybeFetchRate e getRate isOnline s = Inr no_op
   \<or> (\<exists>err. getRate (srcCurrency s) (dstCurrency s) (State.provider s) (apiKey s) = Inl err
         \<and> maybeFetchRate e getRate isOnline s =
             Inr \<lparr>calls = [(srcCurrency s, dstCurrency s, State.provider s, apiKey s)],
                  update = None, warnings = [err]\<rparr>)
   \<or> (\<exists>r. getRate (srcCurrency s) (dstCurrency s) (State.provider s) (apiKey s) = Inr r
         \<and> maybeFetchRate e getRate isOnline s =
             Inr \<lparr>calls = [(srcCurrency s, dstCurrency s, State.provider s, apiKey s)],
                  update = Some (store_rate r), warnings = []\<rparr>)"
  by (cases "getRate (srcCurrency s) (dstCurrency s) (State.provider s) (apiKey s)")
     (auto simp: maybeFetchRate_def try_catch_def Let_def)

subsection \<open>Sorting with a comparison function\<close>

lemma mset_insert_by: "mset (insert_by cmp x xs) = add_mset x (mset xs)"
  by (induction xs) auto

lemma set_insert_by: "set (insert_by cmp x xs) = insert x (set xs)"
  by (induction xs) auto

lemma mset_array_sort: "mset (array_sort cmp xs) = mset xs"
  by (induction xs) (auto simp: array_sort_def mset_insert_by)

lemma sorted_insert_by:
  assumes total: "\<And>a b. cmp a b \<le> 0 \<or> cmp b a \<le> 0"
    and trans: "\<And>a b c. cmp a b \<le> 0 \<Longrightarrow> cmp b c \<le> 0 \<Longrightarrow> cmp a c \<le> 0"
  shows "sorted_wrt (\<lambda>a b. cmp a b \<le> (0::int)) xs \<Longrightarrow>
         sorted_wrt (\<lambda>a b. cmp a b \<le> 0) (insert_by cmp x xs)"
proof (induction xs)
  case Nil
  then show ?case by simp
next
  case (Cons y ys)
  show ?case
  proof (cases "cmp x y \<le> 0")
    case True
    with Cons.prems show ?thesis by (auto intro: trans)
  next
    case False
    then have "cmp y x \<le> 0" using total [of x y] by simp
    with False Cons show ?thesis by (auto simp: set_insert_by)
  qed
qed

lemma sorted_array_sort:
  assumes total: "\<And>a b. cmp a b \<le> 0 \<or> cmp b a \<le> 0"
    and trans: "\<And>a b c. cmp a b \<le> 0 \<Longrightarrow> cmp b c \<le> 0 \<Longrightarrow> cmp a c \<le> 0"
  shows "sorted_wrt (\<lambda>a b. cmp a b \<le> (0::int)) (array_sort cmp xs)"
proof (induction xs)
  case Nil
  then show ?case by (simp add: array_sort_def)
next
  case (Cons x xs)
  then show ?case
    using sorted_insert_by [of cmp "array_sort cmp xs" x, OF total trans]
    by (simp add: array_sort_def)
qed

text \<open>The comparison by character codes is total and transitive.\<close>

lemma code_compare_total: "code_compare a b \<le> 0 \<or> code_compare b a \<le> 0"
  by (induction a b rule: code_compare.induct) auto

lemma code_compare_Cons_le:
  "code_compare (a # as) (b # bs) \<le> 0 \<longleftrightarrow>
     (of_char a :: nat) < of_char b \<or> ((of_char a :: nat) = of_char b \<and> code_compare as bs \<le> 0)"
  by auto

lemma code_compare_Nil_le: "code_compare [] b \<le> 0"
  by (cases b) simp_all

lemma code_compare_trans:
  "code_compare a b \<le> 0 \<Longrightarrow> code_compare b c \<le> 0 \<Longrightarrow> code_compare a c \<le> 0"
proof (induction a arbitrary: b c)
  case Nil
  then show ?case by (simp add: code_compare_Nil_le)
next
  case (Cons x xs)
  from Cons.prems(1) obtain y ys where b: "b = y # ys"
    by (cases b) simp_all
  from Cons.prems(2) b obtain z zs where c: "c = z # zs"
    by (cases c) simp_all
  from Cons.prems(1) b
  have xy: "(of_char x :: nat) < of_char y
            \<or> ((of_char x :: nat) = of_char y \<and> code_compare xs ys \<le> 0)"
    by (simp only: code_compare_Cons_le)
  from Cons.prems(2) b c
  have yz: "(of_char y :: nat) < of_char z
            \<or> ((of_char y :: nat) = of_char z \<and> code_compare ys zs \<le> 0)"
    by (simp only: code_compare_Cons_le)
  have "(of_char x :: nat) < of_char z
            \<or> ((of_char x :: nat) = of_char z \<and> code_compare xs zs \<le> 0)"
    using xy yz Cons.IH [of ys zs] by linarith
  then show ?case unfolding c by (simp only: code_compare_Cons_le)
qed

subsection \<open>Some roundings\<close>

lemma double_11_10: "round_double (11 / 10) = Fin (2476979795053773 / 2251799813685248)"
  by (rule round_double_eval [where e = 0 and m = 4953959590107546]) simp_all

lemma double_7_10: "round_double (7 / 10) = Fin (3152519739159347 / 4503599627370496)"
  by (rule round_double_eval [where e = "- 1" and m = 6305039478318694]) simp_all

lemma double_115_100: "round_double (23 / 20) = Fin (2589569785738035 / 2251799813685248)"
  by (rule round_double_eval [where e = 0 and m = 5179139571476070]) simp_all

lemma double_third:
  "round_double (3333333333333333 / 10000000000000000) = Fin (6004799503160661 / 18014398509481984)"
  by (rule round_double_eval [where e = "- 2" and m = 6004799503160661]) simp_all

lemma double_1e17: "round_double 100000000000000000 = Fin 100000000000000000"
  by (rule round_double_eval [where e = 56 and m = 6250000000000000]) simp_all

lemma product_2200: "js_mul (Fin 2200) (Fin (2476979795053773 / 2251799813685248)) = Fin 2420"
proof -
  have "round_double (2200 * (2476979795053773 / 2251799813685248)) = Fin 2420"
    by (rule round_double_eval [where e = 11 and m = 5321636278435840]) simp_all
  then show ?thesis by simp
qed

lemma product_10: "js_mul (Fin 10) (Fin (3152519739159347 / 4503599627370496)) = Fin 7"
proof -
  have "round_double (10 * (3152519739159347 / 4503599627370496)) = Fin 7"
    by (rule round_double_eval [where e = 2 and m = 7881299347898368]) simp_all
  then show ?thesis by simp
qed

lemma product_100:
  "js_mul (Fin 100) (Fin (2589569785738035 / 2251799813685248))
   = Fin (8092405580431359 / 70368744177664)"
proof -
  have "round_double (100 * (2589569785738035 / 2251799813685248))
        = Fin (8092405580431359 / 70368744177664)"
    by (rule round_double_eval [where e = 6 and m = 8092405580431359]) simp_all
  then show ?thesis by simp
qed

lemma product_3: "js_mul (Fin 3) (Fin (6004799503160661 / 18014398509481984)) = Fin 1"
proof -
  have "round_double (3 * (6004799503160661 / 18014398509481984)) = Fin 1"
    by (rule round_double_eval [where e = "- 1" and m = 9007199254740992]) simp_all
  then show ?thesis by simp
qed

lemma quotient_1e17: "js_div (Fin 100000000000000000) (Fin 7) = Fin 14285714285714286"
proof -
  have "round_double (100000000000000000 / 7) = Fin 14285714285714286"
    by (rule round_double_eval [where e = 53 and m = 7142857142857143]) simp_all
  then show ?thesis by simp
qed

lemma Number_11_10: "Number ''1.1'' = Fin (2476979795053773 / 2251799813685248)"
  by (simp add: number_eval double_11_10)

lemma Number_7_10: "Number ''0.7'' = Fin (3152519739159347 / 4503599627370496)"
  by (simp add: number_eval double_7_10)

lemma Number_115_100: "Number ''1.15'' = Fin (2589569785738035 / 2251799813685248)"
  by (simp add: number_eval double_115_100)

lemma Number_third: "Number ''0.3333333333333333'' = Fin (6004799503160661 / 18014398509481984)"
  by (simp add: number_eval double_third)

lemma Number_1e17: "Number ''100000000000000000'' = Fin 100000000000000000"
proof -
  have "round_pos 100000000000000000 = Fin 100000000000000000"
    using double_1e17 by simp
  then show ?thesis by (simp add: number_eval)
qed

text \<open>
  Products that are not what exact arithmetic gives: \<open>10 * 0.7\<close> is \<open>7\<close> (the
  exact product of the two doubles is below 7), \<open>3 * 0.3333333333333333\<close> is
  \<open>1\<close> (a tie, rounded to the even significand), \<open>100 * 1.15\<close> is below 115.
\<close>

lemma rounded_products:
  "js_floor (js_mul (Number ''10'') (Number ''0.7'')) = Fin 7"
  "js_floor (js_mul (Number ''3'') (Number ''0.3333333333333333'')) = Fin 1"
  "js_floor (js_mul (Number ''100'') (Number ''1.15'')) = Fin 114"
proof -
  have n: "Number ''10'' = Fin 10" "Number ''3'' = Fin 3" "Number ''100'' = Fin 100"
    by (simp_all add: number_eval)
  show "js_floor (js_mul (Number ''10'') (Number ''0.7'')) = Fin 7"
    by (simp only: n Number_7_10 product_10) simp
  show "js_floor (js_mul (Number ''3'') (Number ''0.3333333333333333'')) = Fin 1"
    by (simp only: n Number_third product_3) simp
  show "js_floor (js_mul (Number ''100'') (Number ''1.15'')) = Fin 114"
    by (simp only: n Number_115_100 product_100) simp
qed

subsection \<open>Comparing a rounded integer\<close>

text \<open>
  A difference of two integers, rounded to a double, compares with a positive integer
  threshold below \<open>2^52\<close> as the exact difference does.
\<close>

lemma round_pos_half:
  assumes lo: "2 powi (- 1022) \<le> q"
  shows "round_pos q = PInf \<or> (\<exists>r. round_pos q = Fin r \<and> q / 2 \<le> r)"
proof -
  have qpos: "0 < q" using lo pow2_pos [of "- 1022"] by linarith
  from binade_ge [OF qpos lo] have mx: "max (binade q) (- 1022) = binade q" by simp
  define Q :: rat where "Q = 2 powi (binade q - 52)"
  have "(2::rat) powi binade q = 2 powi (binade q - 52) * 2 ^ 52"
    by (simp add: power_int_diff)
  with binade_bounds [OF qpos] have Qq: "Q * 2 ^ 52 \<le> q" by (simp add: Q_def)
  have Qpos: "0 < Q" by (simp add: Q_def)
  from round_pos_cases [OF qpos] show ?thesis
    unfolding mx Q_def [symmetric]
  proof (elim disjE exE conjE)
    fix m
    assume r: "round_pos q = Fin (of_int m * Q)" and e: "\<bar>of_int m * Q - q\<bar> \<le> Q / 2"
    have "Q / 2 \<le> q / 2" using Qq Qpos by simp
    with e have "q / 2 \<le> of_int m * Q" by linarith
    with r show ?thesis by blast
  qed simp
qed

lemma round_int_compare:
  fixes x c :: int
  assumes c0: "0 < c" and c52: "c < 2 ^ 52"
  shows "(js_lt (round_double (of_int x)) (Fin (of_int c)) \<longleftrightarrow> x < c)
         \<and> (js_lt (Fin (of_int c)) (round_double (of_int x)) \<longleftrightarrow> c < x)"
proof -
  consider "\<bar>x\<bar> \<le> 2 ^ 53" | "2 ^ 53 < x" | "x < - (2 ^ 53)" by linarith
  then show ?thesis
  proof cases
    case 1
    from round_double_of_int [OF 1] show ?thesis by simp
  next
    case 2
    then have "(of_int (2 ^ 53) :: rat) < of_int x" by (simp only: of_int_less_iff)
    then have big: "(2::rat) ^ 53 < of_int x" by simp
    then have xpos: "(0::rat) < of_int x" by simp
    have "(2::rat) powi (- 1022) \<le> 2 powi 0" by (intro power_int_increasing) simp_all
    with big have lo: "(2::rat) powi (- 1022) \<le> of_int x" by simp
    from c52 have "(of_int c :: rat) < of_int (2 ^ 52)" by (simp only: of_int_less_iff)
    then have cr: "(of_int c :: rat) < 2 ^ 52" by simp
    have rd: "round_double (of_int x) = round_pos (of_int x)"
      using xpos by (simp add: round_double_def)
    from round_pos_half [OF lo] have "js_lt (Fin (of_int c)) (round_pos (of_int x))
        \<and> \<not> js_lt (round_pos (of_int x)) (Fin (of_int c))"
    proof (elim disjE exE conjE)
      fix r :: rat
      assume r: "round_pos (of_int x) = Fin r" and h: "of_int x / 2 \<le> r"
      from h big cr have "of_int c < r" by simp
      with r show ?thesis by simp
    qed simp
    moreover have "c < x" using 2 c52 by simp
    ultimately show ?thesis by (simp add: rd)
  next
    case 3
    then have "(of_int x :: rat) \<le> 0" by simp
    from round_double_nonpos [OF this] have "js_lt (round_double (of_int x)) (Fin (of_int c))
        \<and> \<not> js_lt (Fin (of_int c)) (round_double (of_int x))"
      using c0 by auto
    moreover have "x < c" using 3 c0 by simp
    ultimately show ?thesis by simp
  qed
qed

lemma rate_age_int:
  "timestamp r = Fin (of_int ts) \<Longrightarrow> rate_age e r = round_double (of_int (ms (date_now e) - ts))"
  by (simp add: rate_age_def date_value_def js_sub_def)

lemma is_stale_int:
  "timestamp r = Fin (of_int ts) \<Longrightarrow> is_stale e r \<longleftrightarrow> 86400000 < ms (date_now e) - ts"
  using round_int_compare [of 86400000 "ms (date_now e) - ts"]
  by (simp add: is_stale_def js_gt_def rate_age_int)

lemma fresh_int:
  "timestamp r = Fin (of_int ts) \<Longrightarrow>
   js_lt (rate_age e r) (Fin 3600000) \<longleftrightarrow> ms (date_now e) - ts < 3600000"
  using round_int_compare [of 3600000 "ms (date_now e) - ts"]
  by (simp add: rate_age_int)

subsection \<open>What is written to the console\<close>





subsection \<open>The sample states evaluated\<close>

lemma sample_env_fields:
  "now_date (sample_env t) = time_of t" "date_now (sample_env t) = time_of t"
  "parse_date (sample_env t) = parse_iso 0"
  "intl_format (sample_env t) v c = Inl (RangeError ''Invalid currency code'')"
  "num_to_string (sample_env t) = (\<lambda>q. ''1e+21'')"
  by (simp_all add: sample_env_def)


lemma sample_balance: "parsed_balance sample_state = Fin 3000"
  by (simp add: sample_state_def number_eval)

lemma separated_balance: "parsed_balance (sample_state\<lparr>balance := Some ''3,000''\<rparr>) = Fin 3000"
  by (simp add: number_eval)

lemma large_balance:
  "parsed_balance (sample_state\<lparr>balance := Some ''100000000000000000''\<rparr>) = Fin 100000000000000000"
  using Number_1e17 by (simp add: parsed_balance_def strip_commas_def)

lemma parse_deadline: "parse_iso 0 ''2025-01-20T23:59:59'' = Some (time_of 1737417599000)"
  by (simp add: date_eval)

lemma sample_deadline:
  "parse_date (sample_env t) (paydate sample_state @ ''T23:59:59'') = Some (time_of 1737417599000)"
  by (simp add: sample_state_def sample_env_fields parse_deadline)

text \<open>The days left to the end of \<open>2025-01-20\<close> on a clock within the range of dates.\<close>

lemma deadline_days:
  assumes "parse_date e (paydate s @ ''T23:59:59'') = Some (time_of 1737417599000)"
    and "now_date e = time_of c" and "\<bar>c\<bar> \<le> 8640000000000000"
  shows "days_until e s = Fin (of_int \<lceil>(of_int (1737417599000 - c) :: rat) / 86400000\<rceil>)"
proof -
  have "\<bar>ms (time_of 1737417599000) - ms (now_date e)\<bar> < 2 ^ 53"
    using assms(3) by (simp add: assms(2) ms_time_of)
  from days_until_exact [OF assms(1) this] show ?thesis
    using assms(3) by (simp add: assms(2) ms_time_of)
qed

lemma floor_3000_11: "js_floor (round_double (3000 / 11)) = Fin 272"
  using floor_quotient [of 3000 3000 0 11] by simp

lemma sample_no_rate: "usable_rate sample_state = None"
  by (simp add: sample_state_def usable_rate_def)

lemma toFixed_rate: "toFixed f 4 (Fin (2476979795053773 / 2251799813685248)) = ''1.1000''"
  by (simp add: toFixed_def Let_def digit_char_def)

lemma toFixed_amount: "toFixed f 2 (Fin 2420) = ''2420.00''"
  by (simp add: toFixed_def Let_def digit_char_def)

lemma toFixed_balance: "toFixed f 2 (Fin 3000) = ''3000.00''"
  by (simp add: toFixed_def Let_def digit_char_def)

lemma toFixed_2200: "toFixed f 2 (Fin 2200) = ''2200.00''"
  by (simp add: toFixed_def Let_def digit_char_def)

text \<open>
  The sample state at noon of \<open>2025-01-11\<close>, nine and a half days before the end
  of the payday, and at noon of \<open>2025-01-10\<close>, ten and a half days before it.
\<close>

lemma sample_days: "days_until (sample_env 1736596800000) sample_state = Fin 10"
  by (simp add: deadline_days [OF sample_deadline] sample_env_fields)

lemma sample_compute:
  "compute (sample_env 1736596800000) sample_state =
     out0\<lparr>daysLeft := Fin 10, amountDisplay := Some ''3000.00 EUR'',
          perDay := Some (Fin 300)\<rparr>"
proof -
  have src: "srcCurrency sample_state = ''EUR''" by (simp add: sample_state_def)
  have pd: "paydate sample_state \<noteq> []" by (simp add: sample_state_def)
  show ?thesis
    by (simp add: compute_plain [OF _ pd _ sample_no_rate] sample_days sample_balance src
        formatMoney_def isNaN_def sample_env_fields toFixed_balance)
qed

lemma sample_compute_noon:
  "compute (sample_env 1736510400000) sample_state =
     out0\<lparr>daysLeft := Fin 11, amountDisplay := Some ''3000.00 EUR'',
          perDay := Some (Fin 272)\<rparr>"
proof -
  have du: "days_until (sample_env 1736510400000) sample_state = Fin 11"
    by (simp add: deadline_days [OF sample_deadline] sample_env_fields)
  have src: "srcCurrency sample_state = ''EUR''" by (simp add: sample_state_def)
  have pd: "paydate sample_state \<noteq> []" by (simp add: sample_state_def)
  show ?thesis
    by (simp add: compute_plain [OF _ pd _ sample_no_rate] du sample_balance src
        formatMoney_def isNaN_def sample_env_fields toFixed_balance floor_3000_11)
qed

lemma conversion_fields:
  "useConversion conversion_state" "srcCurrency conversion_state = ''EUR''"
  "dstCurrency conversion_state = ''USD''" "State.provider conversion_state = ''frankfurter''"
  "apiKey conversion_state = []" "paydate conversion_state = ''2025-01-20''"
  "lastRate conversion_state = Some \<lparr>value = Fin (2476979795053773 / 2251799813685248),
       provider = ''frankfurter'', timestamp = Fin 1736589600000, date = Some ''2025-01-11'',
       from = ''EUR'', to = ''USD''\<rparr>"
  by (simp_all add: conversion_state_def sample_state_def Number_11_10)

lemma conversion_balance: "parsed_balance conversion_state = Fin 2200"
  by (simp add: conversion_state_def sample_state_def number_eval)

lemma conversion_deadline:
  "parse_date (sample_env t) (paydate conversion_state @ ''T23:59:59'') = Some (time_of 1737417599000)"
  by (simp add: conversion_fields sample_env_fields parse_deadline)

lemma conversion_not_fresh: "\<not> fresh_rate (sample_env 1736596800000) conversion_state"
  by (simp add: fresh_rate_def conversion_fields fresh_int [of _ 1736589600000] sample_env_fields)

text \<open>A day later the rate of the conversion scenario is 26 hours old and tagged.\<close>

lemma conversion_rate_line_stale:
  "rate_line (sample_env 1736683200000) conversion_state
     \<lparr>value = Fin (2476979795053773 / 2251799813685248), provider = ''frankfurter'',
      timestamp = Fin 1736589600000, date = Some ''2025-01-11'', from = ''EUR'', to = ''USD''\<rparr>
   = ''1 EUR = 1.1000 USD (cached)''"
  by (simp add: rate_line_def conversion_fields is_stale_int [of _ 1736589600000]
      sample_env_fields toFixed_rate)

lemma mismatch_compute:
  "compute (sample_env 1736596800000) mismatch_state =
     out0\<lparr>daysLeft := Fin 10, amountDisplay := Some ''2200.00 EUR'',
          perDay := Some (Fin 220)\<rparr>"
proof -
  have dl: "parse_date (sample_env 1736596800000) (paydate mismatch_state @ ''T23:59:59'')
            = Some (time_of 1737417599000)"
    by (simp add: mismatch_state_def conversion_fields sample_env_fields parse_deadline)
  have du: "days_until (sample_env 1736596800000) mismatch_state = Fin 10"
    by (simp add: deadline_days [OF dl] sample_env_fields)
  have bal: "parsed_balance mismatch_state = Fin 2200"
    by (simp add: mismatch_state_def conversion_state_def sample_state_def number_eval)
  have src: "srcCurrency mismatch_state = ''EUR''"
    and pd: "paydate mismatch_state \<noteq> []"
    and nr: "usable_rate mismatch_state = None"
    by (simp_all add: mismatch_state_def conversion_state_def sample_state_def usable_rate_def)
  show ?thesis
    by (simp add: compute_plain [OF _ pd _ nr] du bal src
        formatMoney_def isNaN_def sample_env_fields toFixed_2200)
qed

lemma sample_sorted:
  "listCurrencies code_compare (Response True (Inr sample_catalogue)) =
     Inr [(''CAD'', ''Canadian Dollar''), (''CHF'', ''Swiss Franc''),
          (''CNY'', ''Chinese Renminbi Yuan'')]"
  by (simp add: listCurrencies_def try_catch_def sample_catalogue_def array_sort_def by_first_def)

section \<open>The per-day budget without conversion\<close>

text \<open>
  Claim C1, amended. When the parsed balance is positive, the payday is non-empty,
  its end of day (as the runtime parses it) lies after the current instant, and the
  conversion branch does not apply, the calculation reports no error, \<open>daysLeft\<close>
  is an integer \<open>d \<ge> 1\<close>, the ceiling of the remaining time in days (exactly so
  whenever the remaining time is below \<open>2^53\<close> milliseconds), and \<open>perDay\<close> is
  \<open>Math.floor(balance / d)\<close> in double arithmetic, which does not exceed the
  double \<open>balance / d\<close>. For a balance \<open>b\<close> below \<open>2^53\<close> this is the integer
  \<open>\<lfloor>b / d\<rfloor> \<le> b / d\<close> of exact arithmetic.

  The scenario: balance \<open>"3000"\<close> or \<open>"3,000"\<close>, no conversion, payday
  \<open>2025-01-20\<close>, and the clock at noon of \<open>2025-01-11\<close>, nine calendar days
  before the payday: \<open>daysLeft = 10\<close>, \<open>perDay = 300\<close>, no error.
\<close>

theorem perDay_floor_of_balance:
  assumes pos: "js_gt (parsed_balance s) (Fin 0)"
    and pd: "paydate s \<noteq> []"
    and parse: "parse_date e (paydate s @ ''T23:59:59'') = Some t"
    and future: "ms (now_date e) < ms t"
    and noconv: "usable_rate s = None"
  shows "\<exists>d. 1 \<le> d \<and> daysLeft (compute e s) = Fin (of_int d)
           \<and> (ms t - ms (now_date e) < 2 ^ 53 \<longrightarrow>
                d = \<lceil>(of_int (ms t - ms (now_date e)) :: rat) / 86400000\<rceil>)
           \<and> perDay (compute e s) = Some (js_floor (js_div (parsed_balance s) (Fin (of_int d))))
           \<and> js_le (js_floor (js_div (parsed_balance s) (Fin (of_int d))))
                   (js_div (parsed_balance s) (Fin (of_int d)))
           \<and> (\<forall>b. parsed_balance s = Fin b \<and> b < 2 ^ 53 \<longrightarrow>
                  perDay (compute e s) = Some (Fin (of_int \<lfloor>b / of_int d\<rfloor>))
                  \<and> of_int \<lfloor>b / of_int d\<rfloor> \<le> b / of_int d)
           \<and> error (compute e s) = []"
proof -
  from days_until_parsed [OF parse] obtain d where
    du: "days_until e s = Fin (of_int d)"
    and sign: "d \<le> 0 \<longleftrightarrow> ms t \<le> ms (now_date e)"
    and exact: "\<bar>ms t - ms (now_date e)\<bar> < 2 ^ 53 \<longrightarrow>
                d = \<lceil>(of_int (ms t - ms (now_date e)) :: rat) / 86400000\<rceil>"
    by blast
  have d1: "1 \<le> d" using sign future by simp
  have nle: "\<not> js_le (days_until e s) (Fin 0)" using d1 by (simp add: du)
  have c: "compute e s = out0\<lparr>daysLeft := days_until e s,
      amountDisplay := Some (formatMoney e (parsed_balance s) (srcCurrency s)),
      perDay := Some (js_floor (js_div (parsed_balance s) (days_until e s)))\<rparr>"
    by (rule compute_plain [OF js_gt_zero_truthy [OF pos] pd nle noconv])
  have fl: "js_le (js_floor (js_div (parsed_balance s) (Fin (of_int d))))
                  (js_div (parsed_balance s) (Fin (of_int d)))"
    using pos d1 by (intro js_floor_le) simp_all
  have fin: "perDay (compute e s) = Some (Fin (of_int \<lfloor>b / of_int d\<rfloor>))
             \<and> of_int \<lfloor>b / of_int d\<rfloor> \<le> b / of_int d"
    if pb: "parsed_balance s = Fin b" and b53: "b < 2 ^ 53" for b
  proof -
    from pos pb have bpos: "0 < b" by (simp add: js_gt_def)
    from parsed_balance_grid [OF pb bpos b53] obtain n j where
      "b = of_int n / 2 ^ j" "0 < n" "n < 2 ^ 53" by blast
    from floor_quotient [OF this d1] show ?thesis by (simp add: c du pb)
  qed
  have ex: "ms t - ms (now_date e) < 2 ^ 53 \<longrightarrow>
              d = \<lceil>(of_int (ms t - ms (now_date e)) :: rat) / 86400000\<rceil>"
    using exact future by simp
  have "1 \<le> d \<and> daysLeft (compute e s) = Fin (of_int d)
           \<and> (ms t - ms (now_date e) < 2 ^ 53 \<longrightarrow>
                d = \<lceil>(of_int (ms t - ms (now_date e)) :: rat) / 86400000\<rceil>)
           \<and> perDay (compute e s) = Some (js_floor (js_div (parsed_balance s) (Fin (of_int d))))
           \<and> js_le (js_floor (js_div (parsed_balance s) (Fin (of_int d))))
                   (js_div (parsed_balance s) (Fin (of_int d)))
           \<and> (\<forall>b. parsed_balance s = Fin b \<and> b < 2 ^ 53 \<longrightarrow>
                  perDay (compute e s) = Some (Fin (of_int \<lfloor>b / of_int d\<rfloor>))
                  \<and> of_int \<lfloor>b / of_int d\<rfloor> \<le> b / of_int d)
           \<and> error (compute e s) = []"
    using d1 ex fl fin by (simp add: c du out0_def)
  then show ?thesis ..
qed

theorem perDay_floor_of_balance_witness:
  "daysLeft (compute (sample_env 1736596800000) sample_state) = Fin 10
   \<and> perDay (compute (sample_env 1736596800000) sample_state) = Some (Fin 300)
   \<and> error (compute (sample_env 1736596800000) sample_state) = []
   \<and> daysLeft (compute (sample_env 1736596800000) (sample_state\<lparr>balance := Some ''3,000''\<rparr>))
       = Fin 10
   \<and> perDay (compute (sample_env 1736596800000) (sample_state\<lparr>balance := Some ''3,000''\<rparr>))
       = Some (Fin 300)"
proof -
  let ?e = "sample_env 1736596800000"
  let ?s = "sample_state\<lparr>balance := Some ''3,000''\<rparr>"
  have pos: "js_gt (parsed_balance sample_state) (Fin 0)" "js_gt (parsed_balance ?s) (Fin 0)"
    by (simp_all add: sample_balance separated_balance js_gt_def)
  have pd: "paydate sample_state \<noteq> []" "paydate ?s \<noteq> []" by (simp_all add: sample_state_def)
  have dl: "parse_date ?e (paydate ?s @ ''T23:59:59'') = Some (time_of 1737417599000)"
    using sample_deadline [of 1736596800000] by simp
  have future: "ms (now_date ?e) < ms (time_of 1737417599000)"
    by (simp add: sample_env_fields)
  have nr: "usable_rate ?s = None" by (simp add: sample_state_def usable_rate_def)
  have near: "ms (time_of 1737417599000) - ms (now_date ?e) < 2 ^ 53"
    and days: "\<lceil>(of_int (ms (time_of 1737417599000) - ms (now_date ?e)) :: rat) / 86400000\<rceil> = 10"
    by (simp_all add: sample_env_fields)
  have small: "(3000::rat) < 2 ^ 53" by simp
  from perDay_floor_of_balance [OF pos(1) pd(1) sample_deadline future sample_no_rate]
  have a: "daysLeft (compute ?e sample_state) = Fin 10
           \<and> perDay (compute ?e sample_state) = Some (Fin 300)
           \<and> error (compute ?e sample_state) = []"
    using near days sample_balance small by auto
  from perDay_floor_of_balance [OF pos(2) pd(2) dl future nr]
  have b: "daysLeft (compute ?e ?s) = Fin 10 \<and> perDay (compute ?e ?s) = Some (Fin 300)"
    using near days separated_balance small by auto
  from a b show ?thesis by simp
qed

text \<open>
  Claim C1 as stated fails in two ways. The count of days runs to the end of the
  payday, today included: at noon of \<open>2025-01-10\<close> the payday \<open>2025-01-20\<close>, ten
  days away, gives \<open>daysLeft = 11\<close> and \<open>perDay = 272\<close>, not 300. And the quotient
  is rounded to a double before the floor is taken: for a balance of \<open>10^17\<close> with
  seven days left, \<open>perDay\<close> is 14285714285714286, which exceeds
  \<open>10^17 / 7 = 14285714285714285.71...\<close>.
\<close>

theorem perDay_counterexample:
  "daysLeft (compute (sample_env 1736510400000) sample_state) = Fin 11
   \<and> perDay (compute (sample_env 1736510400000) sample_state) = Some (Fin 272)
   \<and> daysLeft (compute (sample_env 1736856000000)
        (sample_state\<lparr>balance := Some ''100000000000000000''\<rparr>)) = Fin 7
   \<and> perDay (compute (sample_env 1736856000000)
        (sample_state\<lparr>balance := Some ''100000000000000000''\<rparr>)) = Some (Fin 14285714285714286)
   \<and> (100000000000000000 :: rat) / 7 < 14285714285714286"
proof -
  let ?e = "sample_env 1736856000000"
  let ?s = "sample_state\<lparr>balance := Some ''100000000000000000''\<rparr>"
  have dl: "parse_date ?e (paydate ?s @ ''T23:59:59'') = Some (time_of 1737417599000)"
    using sample_deadline [of 1736856000000] by simp
  have du: "days_until ?e ?s = Fin 7"
    by (simp add: deadline_days [OF dl] sample_env_fields)
  have pd: "paydate ?s \<noteq> []" and nr: "usable_rate ?s = None"
    by (simp_all add: sample_state_def usable_rate_def)
  have tb: "to_boolean (parsed_balance ?s)" by (simp add: large_balance)
  have nle: "\<not> js_le (days_until ?e ?s) (Fin 0)" by (simp add: du)
  have "compute ?e ?s = out0\<lparr>daysLeft := days_until ?e ?s,
      amountDisplay := Some (formatMoney ?e (parsed_balance ?s) (srcCurrency ?s)),
      perDay := Some (js_floor (js_div (parsed_balance ?s) (days_until ?e ?s)))\<rparr>"
    by (rule compute_plain [OF tb pd nle nr])
  then have "daysLeft (compute ?e ?s) = Fin 7
             \<and> perDay (compute ?e ?s) = Some (Fin 14285714285714286)"
    by (simp only: du large_balance quotient_1e17) simp
  then show ?thesis by (simp add: sample_compute_noon)
qed

section \<open>The per-day budget with conversion\<close>

text \<open>
  Claim C2. When the parsed balance is positive, the end of the payday lies in the
  future, conversion is switched on, the two currencies differ and \<open>lastRate\<close>
  carries exactly that pair, then \<open>daysLeft\<close> is an integer \<open>d \<ge> 1\<close>,
  \<open>perDay\<close> is \<open>Math.floor(balance * rate / d)\<close>, \<open>convertedDisplay\<close> is
  \<open>formatMoney\<close> of \<open>balance * rate\<close> in the destination currency, and
  \<open>rateLine\<close> is \<open>"1 {src} = {rate.toFixed(4)} {dst}"\<close> followed by
  \<open>" (cached)"\<close> exactly when \<open>Date.now() - timestamp\<close> exceeds 24 hours; for a
  timestamp that is a whole number of milliseconds, exactly when the difference of
  the two integers exceeds 86400000. Product and quotient are those of double
  arithmetic.

  The scenario: balance \<open>"2,200"\<close>, rate 1.1 EUR to USD aged two hours, ten days
  left: the product is 2420, \<open>perDay = 242\<close> and
  \<open>rateLine = "1 EUR = 1.1000 USD"\<close>, without the tag.
\<close>

theorem perDay_converted:
  assumes pos: "js_gt (parsed_balance s) (Fin 0)"
    and pd: "paydate s \<noteq> []"
    and parse: "parse_date e (paydate s @ ''T23:59:59'') = Some t"
    and future: "ms (now_date e) < ms t"
    and conv: "useConversion s"
    and diff: "srcCurrency s \<noteq> dstCurrency s"
    and rate: "lastRate s = Some r"
    and src: "from r = srcCurrency s"
    and dst: "to r = dstCurrency s"
  shows "\<exists>d. 1 \<le> d \<and> daysLeft (compute e s) = Fin (of_int d)
           \<and> (ms t - ms (now_date e) < 2 ^ 53 \<longrightarrow>
                d = \<lceil>(of_int (ms t - ms (now_date e)) :: rat) / 86400000\<rceil>)
           \<and> perDay (compute e s) =
               Some (js_floor (js_div (js_mul (parsed_balance s) (value r)) (Fin (of_int d))))
           \<and> convertedDisplay (compute e s) =
               Some (formatMoney e (js_mul (parsed_balance s) (value r)) (dstCurrency s))
           \<and> rateLine (compute e s) =
               ''1 '' @ srcCurrency s @ '' = '' @ toFixed (num_to_string e) 4 (value r)
               @ '' '' @ dstCurrency s
               @ (if js_gt (js_sub (Fin (of_int (ms (date_now e)))) (timestamp r)) (Fin 86400000)
                  then '' (cached)'' else [])
           \<and> (\<forall>ts. timestamp r = Fin (of_int ts) \<longrightarrow>
                 rateLine (compute e s) =
                   ''1 '' @ srcCurrency s @ '' = '' @ toFixed (num_to_string e) 4 (value r)
                   @ '' '' @ dstCurrency s
                   @ (if 86400000 < ms (date_now e) - ts then '' (cached)'' else []))
           \<and> error (compute e s) = []"
proof -
  from days_until_parsed [OF parse] obtain d where
    du: "days_until e s = Fin (of_int d)"
    and sign: "d \<le> 0 \<longleftrightarrow> ms t \<le> ms (now_date e)"
    and exact: "\<bar>ms t - ms (now_date e)\<bar> < 2 ^ 53 \<longrightarrow>
                d = \<lceil>(of_int (ms t - ms (now_date e)) :: rat) / 86400000\<rceil>"
    by blast
  have d1: "1 \<le> d" using sign future by simp
  have nle: "\<not> js_le (days_until e s) (Fin 0)" using d1 by (simp add: du)
  have ur: "usable_rate s = Some r" by (rule usable_rate_matched [OF conv diff rate src dst])
  note c = compute_converted [OF js_gt_zero_truthy [OF pos] pd nle ur]
  have ex: "ms t - ms (now_date e) < 2 ^ 53 \<longrightarrow>
              d = \<lceil>(of_int (ms t - ms (now_date e)) :: rat) / 86400000\<rceil>"
    using exact future by simp
  have line: "rate_line e s r =
      ''1 '' @ srcCurrency s @ '' = '' @ toFixed (num_to_string e) 4 (value r)
      @ '' '' @ dstCurrency s
      @ (if js_gt (js_sub (Fin (of_int (ms (date_now e)))) (timestamp r)) (Fin 86400000)
         then '' (cached)'' else [])"
    by (simp add: rate_line_def is_stale_def rate_age_def date_value_def)
  have line_int: "\<forall>ts. timestamp r = Fin (of_int ts) \<longrightarrow>
      rate_line e s r =
        ''1 '' @ srcCurrency s @ '' = '' @ toFixed (num_to_string e) 4 (value r)
        @ '' '' @ dstCurrency s
        @ (if 86400000 < ms (date_now e) - ts then '' (cached)'' else [])"
    by (simp add: rate_line_def is_stale_int)
  have f1: "daysLeft (compute e s) = Fin (of_int d)" by (simp add: c du)
  have f2: "perDay (compute e s) =
      Some (js_floor (js_div (js_mul (parsed_balance s) (value r)) (Fin (of_int d))))"
    by (simp add: c du)
  have f3: "convertedDisplay (compute e s) =
      Some (formatMoney e (js_mul (parsed_balance s) (value r)) (dstCurrency s))"
    by (simp add: c)
  have f4: "rateLine (compute e s) = rate_line e s r" by (simp add: c)
  have f5: "error (compute e s) = []" by (simp add: c out0_def)
  show ?thesis
    unfolding f4
    by (rule exI [of _ d]) (intro conjI d1 f1 ex f2 f3 line line_int f5)
qed

theorem perDay_converted_witness:
  "daysLeft (compute (sample_env 1736596800000) conversion_state) = Fin 10
   \<and> perDay (compute (sample_env 1736596800000) conversion_state) = Some (Fin 242)
   \<and> convertedDisplay (compute (sample_env 1736596800000) conversion_state) = Some ''2420.00 USD''
   \<and> rateLine (compute (sample_env 1736596800000) conversion_state) = ''1 EUR = 1.1000 USD''
   \<and> error (compute (sample_env 1736596800000) conversion_state) = []"
proof -
  let ?e = "sample_env 1736596800000"
  let ?r = "\<lparr>value = Fin (2476979795053773 / 2251799813685248), provider = ''frankfurter'',
             timestamp = Fin 1736589600000, date = Some ''2025-01-11'',
             from = ''EUR'', to = ''USD''\<rparr>"
  have pos: "js_gt (parsed_balance conversion_state) (Fin 0)"
    by (simp add: conversion_balance js_gt_def)
  have pd: "paydate conversion_state \<noteq> []" by (simp add: conversion_fields)
  have future: "ms (now_date ?e) < ms (time_of 1737417599000)"
    by (simp add: sample_env_fields)
  have conv: "useConversion conversion_state"
    and diff: "srcCurrency conversion_state \<noteq> dstCurrency conversion_state"
    and rate: "lastRate conversion_state = Some ?r"
    and src: "from ?r = srcCurrency conversion_state"
    and dst: "to ?r = dstCurrency conversion_state"
    by (simp_all add: conversion_fields)
  have near: "ms (time_of 1737417599000) - ms (now_date ?e) < 2 ^ 53"
    and days: "\<lceil>(of_int (ms (time_of 1737417599000) - ms (now_date ?e)) :: rat) / 86400000\<rceil> = 10"
    by (simp_all add: sample_env_fields)
  have stamp: "timestamp ?r = Fin (of_int 1736589600000)" by simp
  have age: "\<not> 86400000 < ms (date_now ?e) - 1736589600000" by (simp add: sample_env_fields)
  have quot: "js_floor (js_div (Fin 2420) (Fin 10)) = Fin 242" by simp
  from perDay_converted [OF pos pd conversion_deadline future conv diff rate src dst]
  obtain d where d: "daysLeft (compute ?e conversion_state) = Fin (of_int d)"
    "ms (time_of 1737417599000) - ms (now_date ?e) < 2 ^ 53 \<longrightarrow>
       d = \<lceil>(of_int (ms (time_of 1737417599000) - ms (now_date ?e)) :: rat) / 86400000\<rceil>"
    "perDay (compute ?e conversion_state) =
       Some (js_floor (js_div (js_mul (parsed_balance conversion_state) (value ?r)) (Fin (of_int d))))"
    "convertedDisplay (compute ?e conversion_state) =
       Some (formatMoney ?e (js_mul (parsed_balance conversion_state) (value ?r))
          (dstCurrency conversion_state))"
    "\<forall>ts. timestamp ?r = Fin (of_int ts) \<longrightarrow>
       rateLine (compute ?e conversion_state) =
         ''1 '' @ srcCurrency conversion_state @ '' = ''
         @ toFixed (num_to_string ?e) 4 (value ?r)
         @ '' '' @ dstCurrency conversion_state
         @ (if 86400000 < ms (date_now ?e) - ts then '' (cached)'' else [])"
    "error (compute ?e conversion_state) = []"
    by blast
  from d(2) near days have d10: "d = 10" by simp
  have prod: "js_mul (parsed_balance conversion_state) (value ?r) = Fin 2420"
    by (simp only: conversion_balance product_2200 fetched.simps)
  have a: "daysLeft (compute ?e conversion_state) = Fin 10" using d(1) by (simp add: d10)
  have b: "perDay (compute ?e conversion_state) = Some (Fin 242)"
    using d(3) unfolding prod d10 by simp
  have c: "convertedDisplay (compute ?e conversion_state) = Some ''2420.00 USD''"
    using d(4) unfolding prod
    by (simp add: formatMoney_def isNaN_def sample_env_fields toFixed_amount conversion_fields)
  from d(5) [rule_format, OF stamp]
  have l: "rateLine (compute ?e conversion_state) = ''1 EUR = 1.1000 USD''"
    by (simp only: age if_False) (simp add: conversion_fields toFixed_rate)
  from a b c l d(6) show ?thesis by simp
qed

section \<open>A payday that is not in the future\<close>

text \<open>
  Claim C3. When the parsed balance is positive and the end of the payday (23:59:59
  local time, as the runtime parses it) is the current instant or earlier, the number
  of days \<open>ceil((end of payday - now) / 1 day)\<close> is an integer that is at most 0
  (the ceiling of the exact quotient whenever the payday lies less than \<open>2^53\<close>
  milliseconds back), and the calculation returns
  \<open>error = "Choose a future payday."\<close> with \<open>perDay = null\<close>. In particular a
  count of exactly 0 is an error.
\<close>

theorem past_payday_is_error:
  assumes pos: "js_gt (parsed_balance s) (Fin 0)"
    and pd: "paydate s \<noteq> []"
    and parse: "parse_date e (paydate s @ ''T23:59:59'') = Some t"
    and past: "ms t \<le> ms (now_date e)"
  shows "\<exists>d. d \<le> 0 \<and> days_until e s = Fin (of_int d)
           \<and> (ms (now_date e) - ms t < 2 ^ 53 \<longrightarrow>
                d = \<lceil>(of_int (ms t - ms (now_date e)) :: rat) / 86400000\<rceil>)
           \<and> js_le (days_until e s) (Fin 0)
           \<and> error (compute e s) = ''Choose a future payday.''
           \<and> perDay (compute e s) = None
           \<and> compute e s = out0\<lparr>error := ''Choose a future payday.''\<rparr>"
proof -
  from days_until_parsed [OF parse] obtain d where
    du: "days_until e s = Fin (of_int d)"
    and sign: "d \<le> 0 \<longleftrightarrow> ms t \<le> ms (now_date e)"
    and exact: "\<bar>ms t - ms (now_date e)\<bar> < 2 ^ 53 \<longrightarrow>
                d = \<lceil>(of_int (ms t - ms (now_date e)) :: rat) / 86400000\<rceil>"
    by blast
  have dle: "d \<le> 0" using sign past by simp
  have le: "js_le (days_until e s) (Fin 0)" using dle by (simp add: du)
  note c = compute_past [OF js_gt_zero_truthy [OF pos] pd le]
  have ex: "ms (now_date e) - ms t < 2 ^ 53 \<longrightarrow>
              d = \<lceil>(of_int (ms t - ms (now_date e)) :: rat) / 86400000\<rceil>"
    using exact past by simp
  have f1: "error (compute e s) = ''Choose a future payday.''" by (simp add: c)
  have f2: "perDay (compute e s) = None" by (simp add: c out0_def)
  show ?thesis
    by (rule exI [of _ d]) (intro conjI dle du ex le f1 f2 c)
qed

theorem past_payday_is_error_witness:
  "days_until (sample_env 1737417599000) sample_state = Fin 0
   \<and> error (compute (sample_env 1737417599000) sample_state) = ''Choose a future payday.''
   \<and> perDay (compute (sample_env 1737417599000) sample_state) = None"
proof -
  let ?e = "sample_env 1737417599000"
  have pos: "js_gt (parsed_balance sample_state) (Fin 0)"
    by (simp add: sample_balance js_gt_def)
  have pd: "paydate sample_state \<noteq> []" by (simp add: sample_state_def)
  have past: "ms (time_of 1737417599000) \<le> ms (now_date ?e)"
    by (simp add: sample_env_fields)
  have near: "ms (now_date ?e) - ms (time_of 1737417599000) < 2 ^ 53"
    and days: "\<lceil>(of_int (ms (time_of 1737417599000) - ms (now_date ?e)) :: rat) / 86400000\<rceil> = 0"
    by (simp_all add: sample_env_fields)
  from past_payday_is_error [OF pos pd sample_deadline past]
  obtain d where d: "days_until ?e sample_state = Fin (of_int d)"
    "ms (now_date ?e) - ms (time_of 1737417599000) < 2 ^ 53 \<longrightarrow>
       d = \<lceil>(of_int (ms (time_of 1737417599000) - ms (now_date ?e)) :: rat) / 86400000\<rceil>"
    "error (compute ?e sample_state) = ''Choose a future payday.''"
    "perDay (compute ?e sample_state) = None"
    by (elim exE conjE)
  from d(2) near days have "d = 0" by simp
  with d show ?thesis by simp
qed

section \<open>Not enough input yet\<close>

text \<open>
  Claim C7. When the balance is absent, or parses to zero once the commas are
  stripped, or the payday is empty, the calculation returns the neutral record:
  \<open>perDay = null\<close>, \<open>daysLeft = 0\<close>, \<open>error = ""\<close>.
\<close>

theorem neutral_when_input_incomplete:
  assumes "balance s = None \<or> (\<exists>b. balance s = Some b \<and> Number (strip_commas b) = Fin 0)
           \<or> paydate s = []"
  shows "compute e s = out0 \<and> perDay (compute e s) = None \<and> daysLeft (compute e s) = Fin 0
         \<and> error (compute e s) = []"
proof -
  have "\<not> to_boolean (parsed_balance s) \<or> paydate s = []"
    using assms parsed_balance_zero [of s] by auto
  then have "compute e s = out0" by (rule compute_neutral)
  then show ?thesis by (simp add: out0_def)
qed

theorem neutral_when_input_incomplete_witness:
  "compute (sample_env 0) (sample_state\<lparr>balance := None\<rparr>) = out0
   \<and> compute (sample_env 0) (sample_state\<lparr>balance := Some ''0,000.00''\<rparr>) = out0
   \<and> compute (sample_env 0) (sample_state\<lparr>paydate := []\<rparr>) = out0
   \<and> perDay out0 = None \<and> daysLeft out0 = Fin 0 \<and> error out0 = []"
proof -
  have a: "balance (sample_state\<lparr>balance := None\<rparr>) = None" by simp
  have b: "\<exists>b. balance (sample_state\<lparr>balance := Some ''0,000.00''\<rparr>) = Some b
               \<and> Number (strip_commas b) = Fin 0"
    by (simp add: number_eval)
  have c: "paydate (sample_state\<lparr>paydate := []\<rparr>) = []" by simp
  from neutral_when_input_incomplete [of "sample_state\<lparr>balance := None\<rparr>" "sample_env 0"]
       neutral_when_input_incomplete [of "sample_state\<lparr>balance := Some ''0,000.00''\<rparr>" "sample_env 0"]
       neutral_when_input_incomplete [of "sample_state\<lparr>paydate := []\<rparr>" "sample_env 0"]
       a b c
  show ?thesis by (simp add: out0_def)
qed

section \<open>A rate for another currency pair\<close>

text \<open>
  Claim C4. When \<open>lastRate\<close> carries a pair other than the state's
  (\<open>srcCurrency\<close>, \<open>dstCurrency\<close>), it is not used: \<open>convertedDisplay\<close> stays
  \<open>null\<close>, \<open>rateLine\<close> stays empty, a \<open>perDay\<close> that is produced is the floor of
  the source-currency balance over the days left, and the whole result is the one
  obtained with no rate at all. Replacing the timestamp of the rate by any other
  value changes nothing.
\<close>

theorem mismatched_rate_unused:
  assumes rate: "lastRate s = Some r"
    and mismatch: "from r \<noteq> srcCurrency s \<or> to r \<noteq> dstCurrency s"
  shows "convertedDisplay (compute e s) = None \<and> rateLine (compute e s) = []
         \<and> (\<forall>p. perDay (compute e s) = Some p \<longrightarrow>
                p = js_floor (js_div (parsed_balance s) (days_until e s)))
         \<and> compute e s = compute e (s\<lparr>lastRate := None\<rparr>)
         \<and> (\<forall>ts. compute e (s\<lparr>lastRate := Some (r\<lparr>timestamp := ts\<rparr>)\<rparr>) = compute e s)"
proof -
  have u: "usable_rate s = None" by (rule usable_rate_mismatched [OF rate mismatch])
  have n: "compute e s = compute e (s\<lparr>lastRate := None\<rparr>)"
  proof (rule compute_cong)
    show "usable_rate s = usable_rate (s\<lparr>lastRate := None\<rparr>)"
      unfolding u by (simp add: usable_rate_def)
  qed simp_all
  have t: "compute e (s\<lparr>lastRate := Some (r\<lparr>timestamp := ts\<rparr>)\<rparr>) = compute e s" for ts
  proof (rule compute_cong)
    show "usable_rate (s\<lparr>lastRate := Some (r\<lparr>timestamp := ts\<rparr>)\<rparr>) = usable_rate s"
      unfolding u using mismatch by (auto simp: usable_rate_def)
  qed simp_all
  show ?thesis using compute_no_rate [OF u, of e] n t by simp
qed

theorem mismatched_rate_unused_witness:
  "convertedDisplay (compute (sample_env 1736596800000) mismatch_state) = None
   \<and> rateLine (compute (sample_env 1736596800000) mismatch_state) = []
   \<and> perDay (compute (sample_env 1736596800000) mismatch_state) = Some (Fin 220)
   \<and> compute (sample_env 1736596800000) mismatch_state
       = compute (sample_env 1736596800000) (mismatch_state\<lparr>lastRate := None\<rparr>)"
proof -
  let ?r = "\<lparr>value = Fin (2476979795053773 / 2251799813685248), provider = ''frankfurter'',
             timestamp = Fin 1736589600000, date = Some ''2025-01-11'',
             from = ''EUR'', to = ''USD''\<rparr>"
  have rate: "lastRate mismatch_state = Some ?r"
    and mismatch: "from ?r \<noteq> srcCurrency mismatch_state \<or> to ?r \<noteq> dstCurrency mismatch_state"
    by (simp_all add: mismatch_state_def conversion_fields)
  have p: "perDay (compute (sample_env 1736596800000) mismatch_state) = Some (Fin 220)"
    by (simp add: mismatch_compute)
  from mismatched_rate_unused [OF rate mismatch, of "sample_env 1736596800000"] p
  show ?thesis by blast
qed

section \<open>The three outcomes\<close>

text \<open>
  Claim C10, amended. For a payday that is empty or that the runtime parses as a
  date: if \<open>error\<close> is non-empty then \<open>perDay = null\<close>, \<open>daysLeft = 0\<close>,
  \<open>convertedDisplay = null\<close> and \<open>rateLine = ""\<close>; and if \<open>perDay\<close> is
  non-null then \<open>error = ""\<close> and \<open>daysLeft\<close> is an integer that is at least 1.
\<close>

theorem outcomes_exclusive:
  assumes valid: "paydate s \<noteq> [] \<longrightarrow> parse_date e (paydate s @ ''T23:59:59'') \<noteq> None"
  shows "(error (compute e s) \<noteq> [] \<longrightarrow>
            perDay (compute e s) = None \<and> daysLeft (compute e s) = Fin 0
            \<and> convertedDisplay (compute e s) = None \<and> rateLine (compute e s) = [])
         \<and> (perDay (compute e s) \<noteq> None \<longrightarrow>
              error (compute e s) = []
              \<and> (\<exists>d. 1 \<le> d \<and> daysLeft (compute e s) = Fin (of_int d)))"
proof (cases "\<not> to_boolean (parsed_balance s) \<or> paydate s = []")
  case True
  then show ?thesis by (simp add: compute_neutral out0_def)
next
  case False
  then have tb: "to_boolean (parsed_balance s)" and pd: "paydate s \<noteq> []" by simp_all
  from valid pd obtain t where parse: "parse_date e (paydate s @ ''T23:59:59'') = Some t"
    by auto
  from days_until_parsed [OF parse] obtain d where du: "days_until e s = Fin (of_int d)"
    by blast
  show ?thesis
  proof (cases "d \<le> 0")
    case True
    then have "js_le (days_until e s) (Fin 0)" by (simp add: du)
    then show ?thesis by (simp add: compute_past [OF tb pd] out0_def)
  next
    case False
    then have nle: "\<not> js_le (days_until e s) (Fin 0)" and d1: "1 \<le> d" by (simp_all add: du)
    show ?thesis
    proof (cases "usable_rate s")
      case None
      show ?thesis using d1 by (auto simp: compute_plain [OF tb pd nle None] out0_def du)
    next
      case (Some r)
      show ?thesis using d1 by (auto simp: compute_converted [OF tb pd nle Some] out0_def du)
    qed
  qed
qed

theorem outcomes_exclusive_witness:
  "perDay (compute (sample_env 1736596800000) sample_state) \<noteq> None
   \<and> error (compute (sample_env 1736596800000) sample_state) = []
   \<and> (\<exists>d. 1 \<le> d \<and> daysLeft (compute (sample_env 1736596800000) sample_state) = Fin (of_int d))"
proof -
  have valid: "paydate sample_state \<noteq> [] \<longrightarrow>
      parse_date (sample_env 1736596800000) (paydate sample_state @ ''T23:59:59'') \<noteq> None"
    by (simp add: sample_deadline)
  have p: "perDay (compute (sample_env 1736596800000) sample_state) \<noteq> None"
    by (simp add: sample_compute)
  from outcomes_exclusive [OF valid] p show ?thesis by blast
qed

text \<open>
  Claim C10 as stated, for every result of the calculation, fails on a payday that
  is not a date: the difference of the dates is \<open>NaN\<close>, the test \<open>days <= 0\<close> is
  false, and the result has \<open>perDay = NaN\<close> (non-null) with \<open>daysLeft = NaN\<close>,
  which is not \<open>>= 1\<close>.
\<close>

theorem invalid_paydate_counterexample:
  "perDay (compute (sample_env 1736596800000) bad_date_state) \<noteq> None
   \<and> \<not> js_ge (daysLeft (compute (sample_env 1736596800000) bad_date_state)) (Fin 1)"
proof -
  have np: "parse_date (sample_env 1736596800000) (paydate bad_date_state @ ''T23:59:59'') = None"
    by (simp add: bad_date_state_def sample_state_def sample_env_fields date_eval)
  have du: "days_until (sample_env 1736596800000) bad_date_state = NaN"
    by (rule days_until_unparsed [OF np])
  have bal: "parsed_balance bad_date_state = Fin 3000"
    by (simp add: bad_date_state_def sample_state_def number_eval)
  have pd: "paydate bad_date_state \<noteq> []"
    and nr: "usable_rate bad_date_state = None"
    by (simp_all add: bad_date_state_def sample_state_def usable_rate_def)
  show ?thesis
    by (simp add: compute_plain [OF _ pd _ nr] du bal js_ge_def)
qed

section \<open>What the calculation depends on\<close>




section \<open>When no rate is fetched\<close>

text \<open>
  Claim C5. \<open>maybeFetchRate\<close> makes no call to \<open>getRate\<close> and hands no updater to
  \<open>setState\<close> (so the state stays as it is) whenever the app is offline, or
  \<open>useConversion\<close> is false, or the two currencies are equal, or \<open>lastRate\<close>
  carries the state's currency pair and is less than one hour old: its timestamp is
  a whole number of milliseconds less than 3600000 before \<open>Date.now()\<close>, or, for
  any timestamp, the test \<open>Date.now() - timestamp < 3600000\<close> of the code holds.
\<close>

theorem maybeFetchRate_no_fetch:
  assumes "\<not> isOnline \<or> \<not> useConversion s \<or> srcCurrency s = dstCurrency s
           \<or> (\<exists>r. lastRate s = Some r \<and> from r = srcCurrency s \<and> to r = dstCurrency s
                  \<and> ((\<exists>ts. timestamp r = Fin (of_int ts) \<and> ms (date_now e) - ts < 3600000)
                     \<or> js_lt (js_sub (Fin (of_int (ms (date_now e)))) (timestamp r))
                          (Fin 3600000)))"
  shows "maybeFetchRate e getRate isOnline s = Inr no_op
         \<and> calls no_op = [] \<and> update no_op = None \<and> (\<forall>s'. state_after no_op s' = s')"
proof -
  have "\<not> isOnline \<or> \<not> (useConversion s \<and> srcCurrency s \<noteq> dstCurrency s) \<or> fresh_rate e s"
    using assms by (auto simp: fresh_rate_def fresh_int) (simp add: rate_age_def date_value_def)
  then have "maybeFetchRate e getRate isOnline s = Inr no_op"
    by (auto simp: maybeFetchRate_def)
  then show ?thesis by (simp add: no_op_def state_after_def)
qed

theorem maybeFetchRate_no_fetch_witness:
  "maybeFetchRate (sample_env 1736596800000) sample_fetcher False conversion_state = Inr no_op
   \<and> maybeFetchRate (sample_env 1736596800000) sample_fetcher True sample_state = Inr no_op
   \<and> maybeFetchRate (sample_env 1736596800000) sample_fetcher True
        (sample_state\<lparr>useConversion := True\<rparr>) = Inr no_op
   \<and> maybeFetchRate (sample_env 1736591400000) sample_fetcher True conversion_state = Inr no_op
   \<and> calls no_op = [] \<and> update no_op = None"
proof -
  have a: "\<not> useConversion sample_state" by (simp add: sample_state_def)
  have b: "srcCurrency (sample_state\<lparr>useConversion := True\<rparr>)
           = dstCurrency (sample_state\<lparr>useConversion := True\<rparr>)"
    by (simp add: sample_state_def)
  have "timestamp \<lparr>value = Fin (2476979795053773 / 2251799813685248), provider = ''frankfurter'',
             timestamp = Fin 1736589600000, date = Some ''2025-01-11'',
             from = ''EUR'', to = ''USD''\<rparr> = Fin (of_int 1736589600000)
        \<and> ms (date_now (sample_env 1736591400000)) - 1736589600000 < 3600000"
    by (simp add: sample_env_fields)
  then have c: "\<exists>r. lastRate conversion_state = Some r \<and> from r = srcCurrency conversion_state
             \<and> to r = dstCurrency conversion_state
             \<and> ((\<exists>ts. timestamp r = Fin (of_int ts)
                       \<and> ms (date_now (sample_env 1736591400000)) - ts < 3600000)
                \<or> js_lt (js_sub (Fin (of_int (ms (date_now (sample_env 1736591400000)))))
                            (timestamp r)) (Fin 3600000))"
    unfolding conversion_fields by (intro exI conjI disjI1) (rule refl | simp | assumption)+
  from maybeFetchRate_no_fetch [of False conversion_state "sample_env 1736596800000" sample_fetcher]
       maybeFetchRate_no_fetch [of True sample_state "sample_env 1736596800000" sample_fetcher]
       maybeFetchRate_no_fetch [of True "sample_state\<lparr>useConversion := True\<rparr>"
          "sample_env 1736596800000" sample_fetcher]
       maybeFetchRate_no_fetch [of True conversion_state "sample_env 1736591400000" sample_fetcher]
       a b c
  show ?thesis by simp
qed

section \<open>A fetch that fails, a fetch that succeeds\<close>

text \<open>
  Claim C6. The promise of \<open>maybeFetchRate\<close> never rejects: every run ends
  normally. When \<open>getRate\<close> rejects, whatever the error, no updater is handed to
  \<open>setState\<close> and the state, \<open>lastRate\<close> included, is unchanged. An updater is
  handed over only when \<open>getRate\<close> resolved, after exactly one call for the state's
  pair, and it replaces \<open>lastRate\<close> by the fetched record stamped with the
  \<open>srcCurrency\<close> and \<open>dstCurrency\<close> of the state it is applied to.
\<close>

theorem maybeFetchRate_failure_tolerant:
  "\<exists>run. maybeFetchRate e getRate isOnline s = Inr run
     \<and> (\<forall>err. getRate (srcCurrency s) (dstCurrency s) (State.provider s) (apiKey s) = Inl err
            \<longrightarrow> update run = None \<and> (\<forall>s'. state_after run s' = s'))
     \<and> (\<forall>f. update run = Some f \<longrightarrow>
            (\<exists>r. getRate (srcCurrency s) (dstCurrency s) (State.provider s) (apiKey s) = Inr r
               \<and> calls run = [(srcCurrency s, dstCurrency s, State.provider s, apiKey s)]
               \<and> (\<forall>s'. state_after run s' =
                      s'\<lparr>lastRate := Some \<lparr>value = value r, provider = fetched.provider r,
                                           timestamp = timestamp r, date = date r,
                                           from = srcCurrency s', to = dstCurrency s'\<rparr>\<rparr>)))"
  using maybeFetchRate_cases [of e getRate isOnline s]
  by (auto simp: no_op_def state_after_def store_rate_def)

theorem maybeFetchRate_failure_tolerant_witness:
  "(\<exists>run. maybeFetchRate (sample_env 1736596800000) failing_fetcher True conversion_state = Inr run
       \<and> calls run = [(''EUR'', ''USD'', ''frankfurter'', [])]
       \<and> update run = None
       \<and> state_after run conversion_state = conversion_state)
   \<and> (\<exists>run f. maybeFetchRate (sample_env 1736596800000) sample_fetcher True conversion_state = Inr run
       \<and> update run = Some f
       \<and> lastRate (state_after run conversion_state) =
           Some \<lparr>value = Fin (5 / 4), provider = ''frankfurter'', timestamp = Fin 1736596800000,
                 date = Some ''2025-01-11'', from = ''EUR'', to = ''USD''\<rparr>
       \<and> lastRate (state_after run mismatch_state) =
           Some \<lparr>value = Fin (5 / 4), provider = ''frankfurter'', timestamp = Fin 1736596800000,
                 date = Some ''2025-01-11'', from = ''EUR'', to = ''GBP''\<rparr>)"
proof -
  let ?e = "sample_env 1736596800000"
  have fail: "failing_fetcher (srcCurrency conversion_state) (dstCurrency conversion_state)
                (State.provider conversion_state) (apiKey conversion_state)
              = Inl (Error ''HTTP 503: Service Unavailable'')"
    by (simp add: failing_fetcher_def)
  have ok: "sample_fetcher (srcCurrency conversion_state) (dstCurrency conversion_state)
                (State.provider conversion_state) (apiKey conversion_state)
              = Inr \<lparr>value = Fin (5 / 4), provider = ''frankfurter'',
                     timestamp = Fin 1736596800000, date = Some ''2025-01-11''\<rparr>"
    by (simp add: sample_fetcher_def conversion_fields)
  have c1: "maybeFetchRate ?e failing_fetcher True conversion_state =
              Inr \<lparr>calls = [(''EUR'', ''USD'', ''frankfurter'', [])], update = None,
                   warnings = [Error ''HTTP 503: Service Unavailable'']\<rparr>"
    by (simp add: maybeFetchRate_def conversion_not_fresh failing_fetcher_def try_catch_def
        conversion_fields Let_def)
  have c2: "maybeFetchRate ?e sample_fetcher True conversion_state =
              Inr \<lparr>calls = [(''EUR'', ''USD'', ''frankfurter'', [])],
                   update = Some (store_rate \<lparr>value = Fin (5 / 4), provider = ''frankfurter'',
                     timestamp = Fin 1736596800000, date = Some ''2025-01-11''\<rparr>),
                   warnings = []\<rparr>"
    by (simp add: maybeFetchRate_def conversion_not_fresh sample_fetcher_def try_catch_def
        conversion_fields Let_def)
  from maybeFetchRate_failure_tolerant [of ?e failing_fetcher True conversion_state] fail c1
  have first: "\<exists>run. maybeFetchRate ?e failing_fetcher True conversion_state = Inr run
       \<and> calls run = [(''EUR'', ''USD'', ''frankfurter'', [])]
       \<and> update run = None
       \<and> state_after run conversion_state = conversion_state"
    by auto
  from maybeFetchRate_failure_tolerant [of ?e sample_fetcher True conversion_state] ok c2
  have second: "\<exists>run f. maybeFetchRate ?e sample_fetcher True conversion_state = Inr run
       \<and> update run = Some f
       \<and> lastRate (state_after run conversion_state) =
           Some \<lparr>value = Fin (5 / 4), provider = ''frankfurter'', timestamp = Fin 1736596800000,
                 date = Some ''2025-01-11'', from = ''EUR'', to = ''USD''\<rparr>
       \<and> lastRate (state_after run mismatch_state) =
           Some \<lparr>value = Fin (5 / 4), provider = ''frankfurter'', timestamp = Fin 1736596800000,
                 date = Some ''2025-01-11'', from = ''EUR'', to = ''GBP''\<rparr>"
    by (auto simp: conversion_fields mismatch_state_def)
  from first second show ?thesis by blast
qed

section \<open>The order of the catalogue\<close>

text \<open>
  Claim C9, amended. For a comparison that is total and transitive,
  \<open>listCurrencies\<close> returns the entries of the catalogue, each exactly as often as
  it occurs, sorted by code (the first component), and it fails with the error at
  hand when the request fails, when the response is not \<open>ok\<close> and when the body
  does not parse.
\<close>

theorem listCurrencies_sorted_by_code:
  assumes total: "\<forall>a b. localeCompare a b \<le> 0 \<or> localeCompare b a \<le> 0"
    and trans: "\<forall>a b c. localeCompare a b \<le> 0 \<and> localeCompare b c \<le> 0
                  \<longrightarrow> localeCompare a c \<le> 0"
  shows "(\<exists>xs. listCurrencies localeCompare (Response True (Inr json)) = Inr xs
            \<and> sorted_by_code localeCompare xs \<and> mset xs = mset json)
         \<and> listCurrencies localeCompare (NetworkFailure err) = Inl err
         \<and> listCurrencies localeCompare (Response False body)
             = Inl (Error ''Failed to fetch currencies'')
         \<and> listCurrencies localeCompare (Response True (Inl err)) = Inl err"
proof -
  have t1: "by_first localeCompare a b \<le> 0 \<or> by_first localeCompare b a \<le> 0" for a b
    using total by (simp add: by_first_def)
  have t2: "by_first localeCompare a b \<le> 0 \<Longrightarrow> by_first localeCompare b c \<le> 0
            \<Longrightarrow> by_first localeCompare a c \<le> 0" for a b c
    using trans unfolding by_first_def by blast
  have "sorted_wrt (\<lambda>a b. by_first localeCompare a b \<le> 0)
          (array_sort (by_first localeCompare) json)"
    by (rule sorted_array_sort [OF t1 t2])
  then have "sorted_by_code localeCompare (array_sort (by_first localeCompare) json)"
    by (simp add: sorted_by_code_def by_first_def)
  then show ?thesis
    by (simp add: listCurrencies_def try_catch_def mset_array_sort)
qed

theorem listCurrencies_sorted_by_code_witness:
  "listCurrencies code_compare (Response True (Inr sample_catalogue)) =
     Inr [(''CAD'', ''Canadian Dollar''), (''CHF'', ''Swiss Franc''),
          (''CNY'', ''Chinese Renminbi Yuan'')]
   \<and> sorted_by_code code_compare
        [(''CAD'', ''Canadian Dollar''), (''CHF'', ''Swiss Franc''),
         (''CNY'', ''Chinese Renminbi Yuan'')]
   \<and> listCurrencies code_compare (NetworkFailure (TypeError ''Failed to fetch''))
       = Inl (TypeError ''Failed to fetch'')"
proof -
  have total: "\<forall>a b. code_compare a b \<le> 0 \<or> code_compare b a \<le> 0"
    by (simp add: code_compare_total)
  have trans: "\<forall>a b c. code_compare a b \<le> 0 \<and> code_compare b c \<le> 0 \<longrightarrow> code_compare a c \<le> 0"
    by (blast intro: code_compare_trans)
  from listCurrencies_sorted_by_code [OF total trans, of sample_catalogue
         "TypeError ''Failed to fetch''"]
  show ?thesis by (auto simp: sample_sorted)
qed

text \<open>
  Claim C9 as stated, sorted by name, fails: three entries of the provider's
  catalogue come back in the order of their codes CAD, CHF, CNY, and the names
  Canadian Dollar, Swiss Franc, Chinese Renminbi Yuan are not in order.
\<close>

theorem listCurrencies_not_sorted_by_name:
  "listCurrencies code_compare (Response True (Inr sample_catalogue)) =
     Inr [(''CAD'', ''Canadian Dollar''), (''CHF'', ''Swiss Franc''),
          (''CNY'', ''Chinese Renminbi Yuan'')]
   \<and> \<not> sorted_by_name code_compare
        [(''CAD'', ''Canadian Dollar''), (''CHF'', ''Swiss Franc''),
         (''CNY'', ''Chinese Renminbi Yuan'')]"
  by (simp add: sample_sorted sorted_by_name_def)

end
